theory Spec2Isabelle
  imports Main "HOL-Library.Sublist"
begin

section \<open>Characters and whitespace\<close>

text \<open>
  The script works on Python \<open>str\<close> values: sequences of Unicode code points. A
  code point is modelled as a natural number and a string as a list of code points;
  \<open>lit\<close> turns a literal of the source into such a list, \<open>ord\<close> being the code
  point of a character of the source text. Numbers from 0x110000 on are not code
  points; the model treats them as characters that are neither whitespace nor digits.

  \<open>isspace\<close> is \<open>str.isspace\<close>, the characters that \<open>str.strip()\<close> removes:
  TAB, LF, VT, FF, CR, FS, GS, RS, US, SPACE, NEL, NBSP, OGHAM SPACE MARK, EN QUAD to
  HAIR SPACE, LINE SEPARATOR, PARAGRAPH SEPARATOR, NARROW NO-BREAK SPACE, MEDIUM
  MATHEMATICAL SPACE and IDEOGRAPHIC SPACE.
\<close>

type_synonym codepoint = nat
type_synonym str = "codepoint list"

definition ord :: "char \<Rightarrow> codepoint" where
  "ord c = of_char c"

definition lit :: "string \<Rightarrow> str" where
  "lit s = map ord s"

abbreviation newline :: codepoint where
  "newline \<equiv> ord (CHR 0x0A)"

definition isspace :: "codepoint \<Rightarrow> bool" where
  "isspace n =
     ((9 \<le> n \<and> n \<le> 13) \<or> (28 \<le> n \<and> n \<le> 32) \<or> n = 133 \<or> n = 160 \<or> n = 5760 \<or>
      (8192 \<le> n \<and> n \<le> 8202) \<or> n = 8232 \<or> n = 8233 \<or> n = 8239 \<or> n = 8287 \<or> n = 12288)"

definition strip :: "str \<Rightarrow> str" where
  "strip s = rev (dropWhile isspace (rev (dropWhile isspace s)))"

definition startswith :: "str \<Rightarrow> str \<Rightarrow> bool" where
  "startswith s p = (take (length p) s = p)"

text \<open>
  The pattern is compiled for \<open>str\<close> without \<open>re.ASCII\<close>, so its item \<open>\d\<close>
  matches every decimal digit of Unicode (general category Nd), not only \<open>0\<close> to
  \<open>9\<close>. Outside ASCII the decimal digits come in runs of ten, from the digit zero
  to the digit nine of a script; \<open>wide_digit_starts\<close> lists the zero of every run
  (Unicode 14.0).
\<close>

definition isdigit :: "codepoint \<Rightarrow> bool" where
  "isdigit c = (48 \<le> c \<and> c \<le> 57)"

definition wide_digit_starts :: "codepoint list" where
  "wide_digit_starts =
     [0x660, 0x6F0, 0x7C0, 0x966, 0x9E6, 0xA66, 0xAE6, 0xB66, 0xBE6, 0xC66, 0xCE6, 0xD66,
      0xDE6, 0xE50, 0xED0, 0xF20, 0x1040, 0x1090, 0x17E0, 0x1810, 0x1946, 0x19D0, 0x1A80,
      0x1A90, 0x1B50, 0x1BB0, 0x1C40, 0x1C50, 0xA620, 0xA8D0, 0xA900, 0xA9D0, 0xA9F0,
      0xAA50, 0xABF0, 0xFF10, 0x104A0, 0x10D30, 0x11066, 0x110F0, 0x11136, 0x111D0,
      0x112F0, 0x11450, 0x114D0, 0x11650, 0x116C0, 0x11730, 0x118E0, 0x11950, 0x11C50,
      0x11D50, 0x11DA0, 0x16A60, 0x16AC0, 0x16B50, 0x1D7CE, 0x1D7D8, 0x1D7E2, 0x1D7EC,
      0x1D7F6, 0x1E140, 0x1E2F0, 0x1E950, 0x1FBF0]"

definition wide_digit :: "codepoint \<Rightarrow> bool" where
  "wide_digit c = list_ex (\<lambda>s. s \<le> c \<and> c < s + 10) wide_digit_starts"

definition isdecimal :: "codepoint \<Rightarrow> bool" where
  "isdecimal c = (isdigit c \<or> wide_digit c)"


section \<open>Regular expressions with backtracking\<close>

text \<open>
  The pattern \<open>shortform\<close> is built from literal characters, the class
  \<open>[1-9]\<close>, \<open>\d\<close>, greedy \<open>*\<close> on a single item, greedy \<open>?\<close>,
  alternation, named groups and the anchors \<open>^\<close> and \<open>$\<close>. The matcher
  returns every way of matching, in the order in which a backtracking engine tries
  them: the left alternative before the right one, the longest repetition before the
  shorter ones, an optional part present before absent. The first entry is the match
  that \<open>re\<close> reports.

  A matcher state is the number of characters consumed so far and the rest of the
  subject; the groups are a map from group names to the text they captured. The
  script reads named groups only, so the unnamed parentheses of the pattern just
  group. In verbose mode the white space of the pattern is ignored. Without
  \<open>re.MULTILINE\<close> the anchor \<open>$\<close> matches at the end of the subject and before
  a line feed that ends it.
\<close>

datatype atom = Ch codepoint | Range codepoint codepoint | Digit

fun atom_ok :: "atom \<Rightarrow> codepoint \<Rightarrow> bool" where
  "atom_ok (Ch a) c = (c = a)"
| "atom_ok (Range lo hi) c = (lo \<le> c \<and> c \<le> hi)"
| "atom_ok Digit c = isdecimal c"

datatype regex =
    Atom atom
  | Star atom
  | Seq regex regex
  | Alt regex regex
  | Opt regex
  | Named string regex
  | Bol
  | Eol

type_synonym groups = "string \<rightharpoonup> str"
type_synonym mstate = "nat \<times> str"

fun star_splits :: "atom \<Rightarrow> nat \<Rightarrow> str \<Rightarrow> mstate list" where
  "star_splits a p [] = [(p, [])]"
| "star_splits a p (c # cs) =
     (if atom_ok a c then star_splits a (Suc p) cs @ [(p, c # cs)] else [(p, c # cs)])"

fun rmatch :: "regex \<Rightarrow> mstate \<Rightarrow> groups \<Rightarrow> (mstate \<times> groups) list" where
  "rmatch (Atom a) (p, s) g =
     (case s of [] \<Rightarrow> [] | c # cs \<Rightarrow> if atom_ok a c then [((Suc p, cs), g)] else [])"
| "rmatch (Star a) (p, s) g = map (\<lambda>st. (st, g)) (star_splits a p s)"
| "rmatch (Seq r1 r2) st g = concat (map (\<lambda>(st', g'). rmatch r2 st' g') (rmatch r1 st g))"
| "rmatch (Alt r1 r2) st g = rmatch r1 st g @ rmatch r2 st g"
| "rmatch (Opt r) st g = rmatch r st g @ [(st, g)]"
| "rmatch (Named n r) (p, s) g =
     map (\<lambda>((p', s'), g'). ((p', s'), g'(n \<mapsto> take (p' - p) s))) (rmatch r (p, s) g)"
| "rmatch Bol (p, s) g = (if p = 0 then [((p, s), g)] else [])"
| "rmatch Eol (p, s) g = (if s = [] \<or> s = [newline] then [((p, s), g)] else [])"

definition re_match :: "regex \<Rightarrow> str \<Rightarrow> groups option" where
  "re_match r s = (case rmatch r (0, s) Map.empty of [] \<Rightarrow> None | (st, g) # rest \<Rightarrow> Some g)"


section \<open>The script\<close>

definition posint :: regex where
  "posint =
     Alt (Atom (Ch (ord CHR ''0'')))
       (Seq (Atom (Range (ord CHR ''1'') (ord CHR ''9''))) (Star Digit))"

definition prekind_re :: regex where
  "prekind_re =
     Alt (Atom (Ch (ord CHR ''a'')))
       (Alt (Atom (Ch (ord CHR ''b'')))
          (Seq (Atom (Ch (ord CHR ''r''))) (Atom (Ch (ord CHR ''c'')))))"

definition shortform :: regex where
  "shortform =
     Seq Bol
      (Seq (Named ''major'' posint)
      (Seq (Atom (Ch (ord CHR ''.'')))
      (Seq (Named ''minor'' posint)
      (Seq (Opt (Seq (Atom (Ch (ord CHR ''.''))) (Named ''micro'' posint)))
      (Seq (Opt (Seq (Named ''prekind'' prekind_re) (Named ''preval'' posint)))
       Eol)))))"

definition prerelease_kinds :: "str \<rightharpoonup> str" where
  "prerelease_kinds =
     [lit ''a'' \<mapsto> lit ''alpha'', lit ''b'' \<mapsto> lit ''beta'', lit ''rc'' \<mapsto> lit ''rc'']"

definition dict_get :: "(str \<rightharpoonup> str) \<Rightarrow> str \<Rightarrow> str \<Rightarrow> str" where
  "dict_get d k dflt = (case d k of None \<Rightarrow> dflt | Some v \<Rightarrow> v)"

text \<open>
  \<open>m.group(name)\<close> is \<open>None\<close> for a group that took no part in the match. In a
  condition \<open>None\<close> and the empty string count as false, and an f-string prints
  \<open>None\<close> as the four letters.
\<close>

definition truthy :: "str option \<Rightarrow> bool" where
  "truthy x = (case x of None \<Rightarrow> False | Some s \<Rightarrow> s \<noteq> [])"

definition fmt :: "str option \<Rightarrow> str" where
  "fmt x = (case x of None \<Rightarrow> lit ''None'' | Some s \<Rightarrow> s)"

definition reassemble :: "groups \<Rightarrow> str" where
  "reassemble m =
     (let major = m ''major'';
          minor = m ''minor'';
          micro = (if truthy (m ''micro'') then m ''micro'' else Some (lit ''0''));
          prekind = m ''prekind'';
          preval = m ''preval'';
          version = fmt major @ lit ''.'' @ fmt minor @ lit ''.'' @ fmt micro
      in if truthy prekind
         then version @ lit ''-'' @ dict_get prerelease_kinds (fmt prekind) (lit ''dev'') @
                lit ''.'' @ fmt preval
         else version)"

text \<open>
  \<open>resolve\<close> is the part of \<open>main\<close> after the argument check: from the trimmed
  branch name to the value that is printed.
\<close>

definition resolve :: "str \<Rightarrow> str" where
  "resolve branch =
     (if startswith branch (lit ''v'') then
        (let version = drop 1 branch
         in case re_match shortform version of None \<Rightarrow> version | Some m \<Rightarrow> reassemble m)
      else if startswith branch (lit ''release/'') then
        (let version = drop (length (lit ''release/'')) branch
         in case re_match shortform version of None \<Rightarrow> version | Some m \<Rightarrow> reassemble m)
      else branch)"

record outcome =
  exit_code :: nat
  stdout :: str
  stderr :: str

definition print :: "str \<Rightarrow> str" where
  "print s = s @ [newline]"

definition usage_error :: str where
  "usage_error =
     lit ''error: branch name not passed as a sole argument.'' @
     lit '' On GHA pass it as part of `client_payload`.''"

definition set_output :: "str \<Rightarrow> str" where
  "set_output v = lit ''::set-output name=version::'' @ v"

text \<open>
  \<open>argv\<close> is \<open>sys.argv\<close>: the script's name followed by the positional
  arguments.
\<close>

definition main :: "str list \<Rightarrow> outcome" where
  "main argv =
     (if length argv \<noteq> 2 then
        \<lparr>exit_code = 1, stdout = [], stderr = print usage_error\<rparr>
      else if strip (argv ! 1) = [] then
        \<lparr>exit_code = 1, stdout = [], stderr = print usage_error\<rparr>
      else
        \<lparr>exit_code = 0, stdout = print (set_output (resolve (strip (argv ! 1)))), stderr = []\<rparr>)"

section \<open>The short-form grammar\<close>

text \<open>
  The grammar as the specification words it. An integer token is the single character
  \<open>0\<close>, or a nonzero digit followed by digits, the digits being \<open>0\<close> to \<open>9\<close>. A
  parsed version holds the tokens as they stand in the input: MAJOR, MINOR, an
  optional MICRO and an optional pair of prerelease marker and value. A string is in
  short form when it is MAJOR, a dot, MINOR, then the optional dot and MICRO, then the
  optional marker and value, and nothing else.
\<close>

definition is_posint :: "str \<Rightarrow> bool" where
  "is_posint t = (t = lit ''0'' \<or> (t \<noteq> [] \<and> hd t \<noteq> ord CHR ''0'' \<and> list_all isdigit t))"

record parsed_version =
  major :: str
  minor :: str
  micro :: "str option"
  prerelease :: "(str \<times> str) option"

definition well_formed_micro :: "str option \<Rightarrow> bool" where
  "well_formed_micro mc = (case mc of None \<Rightarrow> True | Some m \<Rightarrow> is_posint m)"

definition well_formed_pre :: "(str \<times> str) option \<Rightarrow> bool" where
  "well_formed_pre pre =
     (case pre of None \<Rightarrow> True
      | Some (k, n) \<Rightarrow> (k = lit ''a'' \<or> k = lit ''b'' \<or> k = lit ''rc'') \<and> is_posint n)"

definition well_formed :: "parsed_version \<Rightarrow> bool" where
  "well_formed v =
     (is_posint (major v) \<and> is_posint (minor v) \<and>
      well_formed_micro (micro v) \<and> well_formed_pre (prerelease v))"

definition micro_text :: "str option \<Rightarrow> str" where
  "micro_text mc = (case mc of None \<Rightarrow> [] | Some m \<Rightarrow> lit ''.'' @ m)"

definition pre_text :: "(str \<times> str) option \<Rightarrow> str" where
  "pre_text pre = (case pre of None \<Rightarrow> [] | Some (k, n) \<Rightarrow> k @ n)"

definition short_text :: "parsed_version \<Rightarrow> str" where
  "short_text v = major v @ lit ''.'' @ minor v @ micro_text (micro v) @ pre_text (prerelease v)"

definition short_form :: "str \<Rightarrow> bool" where
  "short_form s = (\<exists>v. well_formed v \<and> s = short_text v)"

text \<open>
  The grammar as the pattern has it. The first character of a number is \<open>0\<close> or one
  of \<open>1\<close> to \<open>9\<close>, as in the specification; the characters after a nonzero first
  digit are matched by \<open>\d\<close> and may be any decimal digit of Unicode.
\<close>

definition is_token :: "str \<Rightarrow> bool" where
  "is_token t =
     (t = lit ''0'' \<or>
      (t \<noteq> [] \<and> isdigit (hd t) \<and> hd t \<noteq> ord CHR ''0'' \<and> list_all isdecimal t))"

definition token_micro :: "str option \<Rightarrow> bool" where
  "token_micro mc = (case mc of None \<Rightarrow> True | Some m \<Rightarrow> is_token m)"

definition token_pre :: "(str \<times> str) option \<Rightarrow> bool" where
  "token_pre pre =
     (case pre of None \<Rightarrow> True
      | Some (k, n) \<Rightarrow> (k = lit ''a'' \<or> k = lit ''b'' \<or> k = lit ''rc'') \<and> is_token n)"

definition matchable :: "parsed_version \<Rightarrow> bool" where
  "matchable v =
     (is_token (major v) \<and> is_token (minor v) \<and>
      token_micro (micro v) \<and> token_pre (prerelease v))"

definition pattern_form :: "str \<Rightarrow> bool" where
  "pattern_form s = (\<exists>v. matchable v \<and> s = short_text v)"

text \<open>
  The canonical form of the specification: \<open>MAJOR.MINOR.MICRO\<close> with MICRO
  defaulting to \<open>0\<close>, followed by \<open>-KIND.VALUE\<close> when a prerelease is present,
  the kind expanded by the fixed table.
\<close>

definition long_kind :: "str \<Rightarrow> str" where
  "long_kind k =
     (if k = lit ''a'' then lit ''alpha'' else if k = lit ''b'' then lit ''beta''
      else if k = lit ''rc'' then lit ''rc'' else lit ''dev'')"

definition canonical :: "parsed_version \<Rightarrow> str" where
  "canonical v =
     major v @ lit ''.'' @ minor v @ lit ''.'' @
     (case micro v of None \<Rightarrow> lit ''0'' | Some m \<Rightarrow> m) @
     (case prerelease v of None \<Rightarrow> []
      | Some (k, n) \<Rightarrow> lit ''-'' @ long_kind k @ lit ''.'' @ n)"


section \<open>Readers of the output\<close>

text \<open>
  \<open>digit_value\<close> is the value of a decimal digit: its distance from the zero of its
  run. \<open>dec\<close> is the number a string of decimal digits denotes, as \<open>int\<close> reads
  it. \<open>read_fields\<close> reads the three leading dot-separated numbers of an emitted
  version. \<open>group_int\<close> is the number in a group of a match, an absent group
  counting as 0.
\<close>

definition digit_value :: "codepoint \<Rightarrow> nat" where
  "digit_value c =
     (if isdigit c then c - 48
      else case find (\<lambda>s. s \<le> c \<and> c < s + 10) wide_digit_starts of
             None \<Rightarrow> 0 | Some s \<Rightarrow> c - s)"

definition dec :: "str \<Rightarrow> nat" where
  "dec t = foldl (\<lambda>n c. 10 * n + digit_value c) 0 t"

definition read_fields :: "str \<Rightarrow> (nat \<times> nat \<times> nat) option" where
  "read_fields s =
     (let a = takeWhile isdecimal s in
      case dropWhile isdecimal s of
        [] \<Rightarrow> None
      | c # s1 \<Rightarrow>
          let b = takeWhile isdecimal s1 in
          (case dropWhile isdecimal s1 of
             [] \<Rightarrow> None
           | d # s2 \<Rightarrow>
               let e = takeWhile isdecimal s2 in
               if c = ord CHR ''.'' \<and> d = ord CHR ''.'' \<and> a \<noteq> [] \<and> b \<noteq> [] \<and> e \<noteq> []
               then Some (dec a, dec b, dec e) else None))"

definition group_int :: "groups \<Rightarrow> string \<Rightarrow> nat" where
  "group_int g n = (case g n of None \<Rightarrow> 0 | Some t \<Rightarrow> dec t)"

text \<open>
  A string has a leading-zero component when a maximal run of decimal digits in it has
  at least two digits and starts with \<open>0\<close>. The flag says whether the character
  before the current one was a decimal digit.
\<close>

fun leading_zero_from :: "bool \<Rightarrow> str \<Rightarrow> bool" where
  "leading_zero_from prev [] = False"
| "leading_zero_from prev (c # cs) =
     ((\<not> prev \<and> c = ord CHR ''0'' \<and> cs \<noteq> [] \<and> isdecimal (hd cs)) \<or>
      leading_zero_from (isdecimal c) cs)"

definition leading_zero :: "str \<Rightarrow> bool" where
  "leading_zero s = leading_zero_from False s"

text \<open>
  The lines of a channel: each line feed ends a line; text after the last line feed is
  a line of its own when it is not empty.
\<close>

fun lines_from :: "str \<Rightarrow> str \<Rightarrow> str list" where
  "lines_from cur [] = (if cur = [] then [] else [rev cur])"
| "lines_from cur (c # cs) =
     (if c = newline then rev cur # lines_from [] cs else lines_from (c # cur) cs)"

definition output_lines :: "str \<Rightarrow> str list" where
  "output_lines s = lines_from [] s"


section \<open>Auxiliary definitions for the proofs about the pattern\<close>

text \<open>
  The tails of \<open>shortform\<close> after MAJOR and the dot, the groups a parsed version
  gives rise to, and the two strings at which \<open>$\<close> matches.
\<close>

definition tail_pre :: regex where
  "tail_pre = Seq (Opt (Seq (Named ''prekind'' prekind_re) (Named ''preval'' posint))) Eol"

definition tail_micro :: regex where
  "tail_micro = Seq (Opt (Seq (Atom (Ch (ord CHR ''.''))) (Named ''micro'' posint))) tail_pre"

definition tail_minor :: regex where
  "tail_minor = Seq (Named ''minor'' posint) tail_micro"

definition pre_value :: "str \<Rightarrow> nat \<Rightarrow> str \<Rightarrow> groups \<Rightarrow> (mstate \<times> groups) list" where
  "pre_value k q t g =
     (if is_token (takeWhile isdecimal t)
      then rmatch Eol (q + length (takeWhile isdecimal t), dropWhile isdecimal t)
             (g(''prekind'' \<mapsto> k, ''preval'' \<mapsto> takeWhile isdecimal t))
      else [])"

definition micro_groups :: "str option \<Rightarrow> groups \<Rightarrow> groups" where
  "micro_groups mc g = (case mc of None \<Rightarrow> g | Some m \<Rightarrow> g(''micro'' \<mapsto> m))"

definition pre_groups :: "(str \<times> str) option \<Rightarrow> groups \<Rightarrow> groups" where
  "pre_groups pre g =
     (case pre of None \<Rightarrow> g | Some (k, n) \<Rightarrow> g(''prekind'' \<mapsto> k, ''preval'' \<mapsto> n))"

definition groups_of :: "parsed_version \<Rightarrow> groups" where
  "groups_of v =
     pre_groups (prerelease v)
       (micro_groups (micro v) [''major'' \<mapsto> major v, ''minor'' \<mapsto> minor v])"

definition at_end :: "str \<Rightarrow> bool" where
  "at_end nl = (nl = [] \<or> nl = [newline])"


section \<open>Facts about characters\<close>

lemma lit_Nil [simp]: "lit [] = []"
  by (simp add: lit_def)

lemma lit_Cons [simp]: "lit (c # cs) = ord c # lit cs"
  by (simp add: lit_def)

lemma ord_eq_iff [simp]: "(ord c = ord d) = (c = d)"
  by (simp add: ord_def)

lemma ord_less_256: "ord c < 256"
  by (simp add: ord_def)

lemma wide_digit_starts_where:
  "list_all (\<lambda>s. 1632 \<le> s \<and> (s + 10 \<le> 4250 \<or> 6112 \<le> s) \<and> (s + 10 \<le> 7258 \<or> 42528 \<le> s))
     wide_digit_starts"
  by (simp add: wide_digit_starts_def)

lemma wide_digit_where:
  assumes "wide_digit c"
  shows "1632 \<le> c" and "\<not> (4250 \<le> c \<and> c < 6112)" and "\<not> (7258 \<le> c \<and> c < 42528)"
proof -
  obtain s where s: "s \<in> set wide_digit_starts" and c: "s \<le> c" "c < s + 10"
    using assms by (auto simp add: wide_digit_def list_ex_iff)
  have "1632 \<le> s \<and> (s + 10 \<le> 4250 \<or> 6112 \<le> s) \<and> (s + 10 \<le> 7258 \<or> 42528 \<le> s)"
    using wide_digit_starts_where s by (simp add: list_all_iff)
  then show "1632 \<le> c" and "\<not> (4250 \<le> c \<and> c < 6112)" and "\<not> (7258 \<le> c \<and> c < 42528)"
    using c by arith+
qed

lemma wide_digit_large: "wide_digit c \<Longrightarrow> 1632 \<le> c"
  by (rule wide_digit_where)

lemma isdecimal_ord: "isdecimal (ord c) = isdigit (ord c)"
  using wide_digit_large [of "ord c"] ord_less_256 [of c] by (auto simp add: isdecimal_def)

lemma isdigit_decimal: "isdigit c \<Longrightarrow> isdecimal c"
  by (simp add: isdecimal_def)

lemma isdecimal_0 [simp]: "isdecimal (ord CHR ''0'')" "isdigit (ord CHR ''0'')"
  by (simp_all add: isdecimal_ord) (simp_all add: isdigit_def ord_def)

lemma isdecimal_consts [simp]:
  "\<not> isdecimal (ord CHR ''.'')" "\<not> isdecimal (ord CHR ''a'')" "\<not> isdecimal (ord CHR ''b'')"
  "\<not> isdecimal (ord CHR ''r'')" "\<not> isdecimal (ord CHR ''c'')" "\<not> isdecimal newline"
  "\<not> isdecimal (ord CHR ''-'')" "\<not> isdecimal (ord CHR ''d'')" "\<not> isdecimal (ord CHR ''v'')"
  by (simp_all add: isdecimal_ord) (simp_all add: isdigit_def ord_def)

lemma isdecimal_neq:
  assumes "isdecimal c"
  shows "c \<noteq> ord CHR ''.''" "c \<noteq> ord CHR ''a''" "c \<noteq> ord CHR ''b''" "c \<noteq> ord CHR ''r''"
    "c \<noteq> newline" "c \<noteq> ord CHR ''-''" "c \<noteq> ord CHR ''d''" "c \<noteq> ord CHR ''v''"
  using assms by auto

lemma decimal_not_space:
  assumes "isdecimal c"
  shows "\<not> isspace c"
proof (cases "isdigit c")
  case True
  then show ?thesis by (auto simp add: isdigit_def isspace_def)
next
  case False
  then have "wide_digit c" using assms by (simp add: isdecimal_def)
  then show ?thesis using wide_digit_where [of c] by (auto simp add: isspace_def)
qed

lemma range19:
  "atom_ok (Range (ord CHR ''1'') (ord CHR ''9'')) c = (isdigit c \<and> c \<noteq> ord CHR ''0'')"
  by (auto simp add: isdigit_def ord_def)


section \<open>The pattern matches exactly the strings of its grammar\<close>

lemma star_digit_concat:
  assumes "\<And>p c cs. isdecimal c \<Longrightarrow> F (p, c # cs) = []"
  shows "concat (map F (star_splits Digit q s)) =
           F (q + length (takeWhile isdecimal s), dropWhile isdecimal s)"
proof (induction s arbitrary: q)
  case Nil
  show ?case by simp
next
  case (Cons c cs)
  show ?case
  proof (cases "isdecimal c")
    case True
    then show ?thesis using Cons.IH [of "Suc q"] assms by simp
  next
    case False
    then show ?thesis by simp
  qed
qed

lemma take_takeWhile: "take (length (takeWhile P xs)) xs = takeWhile P xs"
  by (induction xs) auto

lemma named_posint_then:
  assumes fails: "\<And>p c cs g. isdecimal c \<Longrightarrow> F ((p, c # cs), g) = []"
  shows "concat (map F (rmatch (Named n posint) (p, s) g)) =
           (if is_token (takeWhile isdecimal s)
            then F ((p + length (takeWhile isdecimal s), dropWhile isdecimal s),
                    g(n \<mapsto> takeWhile isdecimal s))
            else [])"
proof (cases s)
  case Nil
  then show ?thesis by (simp add: posint_def is_token_def)
next
  case (Cons c cs)
  show ?thesis
  proof (cases "c = (ord CHR ''0'')")
    case True
    have m: "rmatch (Named n posint) (p, s) g = [((Suc p, cs), g(n \<mapsto> (lit ''0'')))]"
      using True Cons by (simp add: posint_def range19 del: atom_ok.simps(2))
    show ?thesis
    proof (cases cs)
      case Nil
      then show ?thesis using m True Cons by (simp add: is_token_def)
    next
      case (Cons d ds)
      then show ?thesis using m True \<open>s = c # cs\<close> fails [of d "Suc p" ds]
        by (auto simp add: is_token_def)
    qed
  next
    case False
    show ?thesis
    proof (cases "isdigit c")
      case True
      then have dc: "isdecimal c" by (rule isdigit_decimal)
      let ?G = "\<lambda>(p', s'). F ((p', s'), g(n \<mapsto> take (p' - p) s))"
      have m: "concat (map F (rmatch (Named n posint) (p, s) g)) =
                 concat (map ?G (star_splits Digit (Suc p) cs))"
        using True False Cons
        by (simp add: posint_def range19 comp_def case_prod_unfold del: atom_ok.simps(2))
      have "\<And>q d ds. isdecimal d \<Longrightarrow> ?G (q, d # ds) = []"
        using fails by simp
      then have "concat (map ?G (star_splits Digit (Suc p) cs)) =
                   ?G (Suc p + length (takeWhile isdecimal cs), dropWhile isdecimal cs)"
        by (rule star_digit_concat)
      moreover have "is_token (takeWhile isdecimal s)"
        using True dc False Cons by (simp add: is_token_def list_all_iff) (meson set_takeWhileD)
      ultimately show ?thesis
        using m dc Cons by (simp add: take_takeWhile)
    next
      case nd: False
      then show ?thesis using False Cons
        by (simp add: posint_def range19 is_token_def del: atom_ok.simps(2))
    qed
  qed
qed

lemma shortform_tails:
  "shortform = Seq Bol (Seq (Named ''major'' posint) (Seq (Atom (Ch (ord CHR ''.''))) tail_minor))"
  by (simp add: shortform_def tail_minor_def tail_micro_def tail_pre_def)

lemma eol_digit: "isdecimal c \<Longrightarrow> rmatch Eol (p, c # cs) g = []"
  by (auto simp add: isdecimal_neq)

lemma prekind_digit: "isdecimal c \<Longrightarrow> rmatch (Named n prekind_re) (p, c # cs) g = []"
  by (simp add: prekind_re_def isdecimal_neq)

lemma rmatch_prekind:
  "rmatch (Named ''prekind'' prekind_re) (p, s) g =
     (case s of [] \<Rightarrow> []
      | c # t \<Rightarrow>
          if c = (ord CHR ''a'') then [((Suc p, t), g(''prekind'' \<mapsto> (lit ''a'')))]
          else if c = (ord CHR ''b'') then [((Suc p, t), g(''prekind'' \<mapsto> (lit ''b'')))]
          else if c = (ord CHR ''r'') then
            (case t of [] \<Rightarrow> []
             | d # u \<Rightarrow> if d = (ord CHR ''c'') then [((Suc (Suc p), u), g(''prekind'' \<mapsto> (lit ''rc'')))] else [])
          else [])"
  by (simp add: prekind_re_def split: list.splits)

lemma rmatch_tail_pre:
  "rmatch tail_pre (p, s) g =
     (case s of [] \<Rightarrow> [((p, []), g)]
      | c # t \<Rightarrow>
          if c = (ord CHR ''a'') then pre_value (lit ''a'') (Suc p) t g
          else if c = (ord CHR ''b'') then pre_value (lit ''b'') (Suc p) t g
          else if c = (ord CHR ''r'') then
            (case t of [] \<Rightarrow> []
             | d # u \<Rightarrow> if d = (ord CHR ''c'') then pre_value (lit ''rc'') (Suc (Suc p)) u g else [])
          else if s = [newline] then [((p, s), g)] else [])"
proof -
  have e: "\<And>p c cs g. isdecimal c \<Longrightarrow> (\<lambda>(st', g'). rmatch Eol st' g') ((p, c # cs), g) = []"
    by (auto simp add: isdecimal_neq)
  note pv = named_posint_then [where F = "\<lambda>(st', g'). rmatch Eol st' g'", OF e]
  show ?thesis
    unfolding tail_pre_def pre_value_def
    by (simp add: rmatch_prekind pv split: list.splits del: rmatch.simps(6))
qed

lemma tail_pre_digit: "isdecimal c \<Longrightarrow> rmatch tail_pre (p, c # cs) g = []"
  by (simp add: rmatch_tail_pre isdecimal_neq)

lemma tail_pre_dot: "rmatch tail_pre (p, (ord CHR ''.'') # cs) g = []"
  by (simp add: rmatch_tail_pre)

lemma rmatch_tail_micro:
  "rmatch tail_micro (p, s) g =
     (case s of [] \<Rightarrow> rmatch tail_pre (p, s) g
      | c # t \<Rightarrow>
          if c = (ord CHR ''.'') then
            (if is_token (takeWhile isdecimal t)
             then rmatch tail_pre (Suc p + length (takeWhile isdecimal t), dropWhile isdecimal t)
                    (g(''micro'' \<mapsto> takeWhile isdecimal t))
             else [])
          else rmatch tail_pre (p, s) g)"
proof -
  have e: "\<And>p c cs g. isdecimal c \<Longrightarrow> (\<lambda>(st', g'). rmatch tail_pre st' g') ((p, c # cs), g) = []"
    by (simp add: tail_pre_digit)
  note pv = named_posint_then [where F = "\<lambda>(st', g'). rmatch tail_pre st' g'", OF e]
  show ?thesis
    unfolding tail_micro_def
    by (simp add: pv tail_pre_dot split: list.splits del: rmatch.simps(6))
qed

lemma tail_micro_digit: "isdecimal c \<Longrightarrow> rmatch tail_micro (p, c # cs) g = []"
  by (simp add: rmatch_tail_micro tail_pre_digit isdecimal_neq)

lemma rmatch_tail_minor:
  "rmatch tail_minor (p, s) g =
     (if is_token (takeWhile isdecimal s)
      then rmatch tail_micro (p + length (takeWhile isdecimal s), dropWhile isdecimal s)
             (g(''minor'' \<mapsto> takeWhile isdecimal s))
      else [])"
proof -
  have e: "\<And>p c cs g. isdecimal c \<Longrightarrow> (\<lambda>(st', g'). rmatch tail_micro st' g') ((p, c # cs), g) = []"
    by (simp add: tail_micro_digit)
  note pv = named_posint_then [where F = "\<lambda>(st', g'). rmatch tail_micro st' g'", OF e]
  show ?thesis
    unfolding tail_minor_def
    by (simp add: pv del: rmatch.simps(6))
qed

lemma rmatch_shortform:
  "rmatch shortform (0, s) g =
     (if is_token (takeWhile isdecimal s)
      then (case dropWhile isdecimal s of [] \<Rightarrow> []
            | c # t \<Rightarrow>
                if c = (ord CHR ''.'')
                then rmatch tail_minor (Suc (length (takeWhile isdecimal s)), t)
                       (g(''major'' \<mapsto> takeWhile isdecimal s))
                else [])
      else [])"
proof -
  let ?K = "Seq (Atom (Ch (ord CHR ''.''))) tail_minor"
  have e: "\<And>p c cs g. isdecimal c \<Longrightarrow> (\<lambda>(st', g'). rmatch ?K st' g') ((p, c # cs), g) = []"
    by (simp add: isdecimal_neq)
  note pv = named_posint_then [where F = "\<lambda>(st', g'). rmatch ?K st' g'", OF e]
  have "rmatch shortform (0, s) g =
          (if is_token (takeWhile isdecimal s)
           then rmatch ?K (length (takeWhile isdecimal s), dropWhile isdecimal s)
                  (g(''major'' \<mapsto> takeWhile isdecimal s))
           else [])"
    unfolding shortform_tails by (simp add: pv del: rmatch.simps(6))
  then show ?thesis
    by (cases "dropWhile isdecimal s") (simp_all del: dropWhile_eq_Nil_conv)
qed

lemma token_digits: "is_token t \<Longrightarrow> list_all isdecimal t"
  by (auto simp add: is_token_def)

lemma token_nonempty: "is_token t \<Longrightarrow> t \<noteq> []"
  by (auto simp add: is_token_def)

lemma span_digits:
  assumes "list_all isdecimal t" and "u = [] \<or> \<not> isdecimal (hd u)"
  shows "takeWhile isdecimal (t @ u) = t" and "dropWhile isdecimal (t @ u) = u"
proof -
  have t: "\<forall>c\<in>set t. isdecimal c" using assms(1) by (simp add: list_all_iff)
  have u: "takeWhile isdecimal u = []" "dropWhile isdecimal u = u"
    using assms(2) by (cases u; simp)+
  show "takeWhile isdecimal (t @ u) = t" using t u by (simp add: takeWhile_append2)
  show "dropWhile isdecimal (t @ u) = u" using t u by (simp add: dropWhile_append2)
qed

lemma eol_at_end: "rmatch Eol (p, s) g = (if at_end s then [((p, s), g)] else [])"
  by (simp add: at_end_def)

lemma tail_pre_complete:
  assumes "token_pre pre" and "at_end nl"
  shows "rmatch tail_pre (p, pre_text pre @ nl) g =
           [((p + length (pre_text pre), nl), pre_groups pre g)]"
proof (cases pre)
  case None
  then show ?thesis using assms(2)
    by (auto simp add: rmatch_tail_pre pre_text_def pre_groups_def at_end_def)
next
  case (Some kn)
  obtain k n where kn: "kn = (k, n)" by (cases kn)
  have n: "is_token n" and k: "k = (lit ''a'') \<or> k = (lit ''b'') \<or> k = (lit ''rc'')"
    using assms(1) Some kn by (simp_all add: token_pre_def)
  have nl: "nl = [] \<or> \<not> isdecimal (hd nl)" using assms(2) by (auto simp add: at_end_def)
  note sp = span_digits [OF token_digits [OF n] nl]
  show ?thesis using k n Some kn assms(2)
    by (auto simp add: rmatch_tail_pre pre_text_def pre_groups_def pre_value_def sp eol_at_end
        simp del: rmatch.simps)
qed

lemma pre_value_sound:
  assumes "pre_value k q t g = (st, g') # r"
  shows "token_pre (Some (k, takeWhile isdecimal t)) = (k = (lit ''a'') \<or> k = (lit ''b'') \<or> k = (lit ''rc''))"
    and "at_end (dropWhile isdecimal t)"
    and "g' = pre_groups (Some (k, takeWhile isdecimal t)) g"
  using assms
  by (simp_all add: pre_value_def eol_at_end token_pre_def pre_groups_def
      del: rmatch.simps split: if_splits)

lemma tail_pre_sound:
  assumes m: "rmatch tail_pre (p, s) g = (st, g') # r"
  shows "\<exists>pre nl. token_pre pre \<and> at_end nl \<and> s = pre_text pre @ nl \<and>
           g' = pre_groups pre g"
proof -
  have none: "at_end s \<Longrightarrow> g' = g \<Longrightarrow> ?thesis"
    by (intro exI [of _ None] exI [of _ s])
       (simp add: token_pre_def pre_text_def pre_groups_def)
  have some: "?thesis"
    if "pre_value k q t g = (st, g') # r" and "s = k @ t" and "k = (lit ''a'') \<or> k = (lit ''b'') \<or> k = (lit ''rc'')"
    for k q t
    using pre_value_sound [OF that(1)] that(2,3)
    by (intro exI [of _ "Some (k, takeWhile isdecimal t)"] exI [of _ "dropWhile isdecimal t"])
       (simp add: pre_text_def)
  show ?thesis
  proof (cases s)
    case Nil
    then show ?thesis using m none by (simp add: rmatch_tail_pre at_end_def)
  next
    case (Cons c t)
    consider (a) "c = (ord CHR ''a'')" | (b) "c = (ord CHR ''b'')" | (r) "c = (ord CHR ''r'')"
      | (o) "c \<noteq> (ord CHR ''a'')" "c \<noteq> (ord CHR ''b'')" "c \<noteq> (ord CHR ''r'')"
      by blast
    then show ?thesis
    proof cases
      case a
      then have "pre_value (lit ''a'') (Suc p) t g = (st, g') # r"
        using m Cons by (simp add: rmatch_tail_pre)
      then show ?thesis using some [of "(lit ''a'')" "Suc p" t] a Cons by simp
    next
      case b
      then have "pre_value (lit ''b'') (Suc p) t g = (st, g') # r"
        using m Cons by (simp add: rmatch_tail_pre)
      then show ?thesis using some [of "(lit ''b'')" "Suc p" t] b Cons by simp
    next
      case r
      then obtain u where t: "t = (ord CHR ''c'') # u"
        and "pre_value (lit ''rc'') (Suc (Suc p)) u g = (st, g') # r"
        using m Cons by (cases t) (simp_all add: rmatch_tail_pre split: if_splits)
      then show ?thesis using some [of "(lit ''rc'')" "Suc (Suc p)" u] r Cons by simp
    next
      case o
      then have "s = [newline]" and "g' = g"
        using m Cons by (simp_all add: rmatch_tail_pre split: if_splits)
      then show ?thesis using none by (simp add: at_end_def)
    qed
  qed
qed

lemma pre_start:
  assumes "token_pre pre" and "at_end nl"
  shows "pre_text pre @ nl = [] \<or>
           (\<not> isdecimal (hd (pre_text pre @ nl)) \<and> hd (pre_text pre @ nl) \<noteq> (ord CHR ''.''))"
proof (cases pre)
  case None
  then show ?thesis using assms(2) by (auto simp add: pre_text_def at_end_def)
next
  case (Some kn)
  then show ?thesis using assms(1)
    by (cases kn) (auto simp add: pre_text_def token_pre_def)
qed

lemma micro_start:
  assumes "token_pre pre" and "at_end nl"
  shows "micro_text mc @ pre_text pre @ nl = [] \<or>
           \<not> isdecimal (hd (micro_text mc @ pre_text pre @ nl))"
  using pre_start [OF assms] by (cases mc) (auto simp add: micro_text_def)

lemma tail_micro_complete:
  assumes mc: "token_micro mc" and pre: "token_pre pre" and nl: "at_end nl"
  shows "rmatch tail_micro (p, micro_text mc @ pre_text pre @ nl) g =
           [((p + length (micro_text mc) + length (pre_text pre), nl),
             pre_groups pre (micro_groups mc g))]"
proof (cases mc)
  case None
  have "rmatch tail_micro (p, pre_text pre @ nl) g = rmatch tail_pre (p, pre_text pre @ nl) g"
    using pre_start [OF pre nl]
    by (cases "pre_text pre @ nl") (auto simp add: rmatch_tail_micro)
  then show ?thesis
    using None tail_pre_complete [OF pre nl] by (simp add: micro_text_def micro_groups_def)
next
  case (Some m)
  then have m: "is_token m" using mc by (simp add: token_micro_def)
  have st: "pre_text pre @ nl = [] \<or> \<not> isdecimal (hd (pre_text pre @ nl))"
    using pre_start [OF pre nl] by blast
  note sp = span_digits [OF token_digits [OF m] st]
  show ?thesis
    using Some m tail_pre_complete [OF pre nl]
    by (simp add: rmatch_tail_micro micro_text_def micro_groups_def sp)
qed

lemma tail_micro_sound:
  assumes m: "rmatch tail_micro (p, s) g = (st, g') # r"
  shows "\<exists>mc pre nl. token_micro mc \<and> token_pre pre \<and> at_end nl \<and>
           s = micro_text mc @ pre_text pre @ nl \<and> g' = pre_groups pre (micro_groups mc g)"
proof -
  have none: ?thesis if tp: "rmatch tail_pre (p, s) g = (st, g') # r"
  proof -
    obtain pre nl where "token_pre pre" "at_end nl" "s = pre_text pre @ nl"
      "g' = pre_groups pre g"
      using tail_pre_sound [OF tp] by blast
    then show ?thesis
      by (intro exI [of _ None] exI [of _ pre] exI [of _ nl])
         (simp add: token_micro_def micro_text_def micro_groups_def)
  qed
  show ?thesis
  proof (cases s)
    case Nil
    then show ?thesis using m none by (simp add: rmatch_tail_micro)
  next
    case (Cons c t)
    show ?thesis
    proof (cases "c = (ord CHR ''.'')")
      case False
      then show ?thesis using m none Cons by (simp add: rmatch_tail_micro)
    next
      case True
      let ?m = "takeWhile isdecimal t"
      have pm: "is_token ?m"
        and tp: "rmatch tail_pre (Suc p + length ?m, dropWhile isdecimal t) (g(''micro'' \<mapsto> ?m))
                  = (st, g') # r"
        using m Cons True by (simp_all add: rmatch_tail_micro split: if_splits)
      obtain pre nl where "token_pre pre" "at_end nl" "dropWhile isdecimal t = pre_text pre @ nl"
        "g' = pre_groups pre (g(''micro'' \<mapsto> ?m))"
        using tail_pre_sound [OF tp] by blast
      moreover have "t = ?m @ dropWhile isdecimal t" by simp
      ultimately show ?thesis using pm Cons True
        by (intro exI [of _ "Some ?m"] exI [of _ pre] exI [of _ nl])
           (simp add: token_micro_def micro_text_def micro_groups_def)
    qed
  qed
qed

lemma shortform_complete:
  assumes wf: "matchable v" and nl: "at_end nl"
  shows "re_match shortform (short_text v @ nl) = Some (groups_of v)"
proof -
  have ma: "is_token (major v)" and mi: "is_token (minor v)"
    and mc: "token_micro (micro v)" and pre: "token_pre (prerelease v)"
    using wf by (simp_all add: matchable_def)
  let ?t = "micro_text (micro v) @ pre_text (prerelease v) @ nl"
  have s: "short_text v @ nl = major v @ ((ord CHR ''.'') # minor v @ ?t)"
    by (simp add: short_text_def)
  have "(ord CHR ''.'') # minor v @ ?t = [] \<or> \<not> isdecimal (hd ((ord CHR ''.'') # minor v @ ?t))" by simp
  note sp1 = span_digits [OF token_digits [OF ma] this]
  note sp2 = span_digits [OF token_digits [OF mi] micro_start [OF pre nl, of "micro v"]]
  have "rmatch shortform (0, short_text v @ nl) Map.empty =
          [((Suc (length (major v)) + length (minor v) + length (micro_text (micro v))
               + length (pre_text (prerelease v)), nl), groups_of v)]"
    unfolding s
    by (simp add: rmatch_shortform sp1 ma rmatch_tail_minor sp2 mi
        tail_micro_complete [OF mc pre nl] groups_of_def)
  then show ?thesis by (simp add: re_match_def)
qed

lemma shortform_sound:
  assumes m: "re_match shortform s = Some g"
  shows "\<exists>v nl. matchable v \<and> at_end nl \<and> s = short_text v @ nl \<and> g = groups_of v"
proof -
  obtain st r where r: "rmatch shortform (0, s) Map.empty = (st, g) # r"
    using m by (auto simp add: re_match_def split: list.splits)
  let ?ma = "takeWhile isdecimal s"
  have ma: "is_token ?ma" using r by (simp add: rmatch_shortform split: if_splits)
  obtain t where t: "dropWhile isdecimal s = (ord CHR ''.'') # t"
    and r2: "rmatch tail_minor (Suc (length ?ma), t) [''major'' \<mapsto> ?ma] = (st, g) # r"
    using r ma by (cases "dropWhile isdecimal s") (simp_all add: rmatch_shortform split: if_splits)
  let ?mi = "takeWhile isdecimal t"
  have mi: "is_token ?mi"
    and r3: "rmatch tail_micro (Suc (length ?ma) + length ?mi, dropWhile isdecimal t)
               [''major'' \<mapsto> ?ma, ''minor'' \<mapsto> ?mi] = (st, g) # r"
    using r2 by (simp_all add: rmatch_tail_minor split: if_splits)
  obtain mc pre nl where mc: "token_micro mc" and pre: "token_pre pre"
    and nl: "at_end nl" and u: "dropWhile isdecimal t = micro_text mc @ pre_text pre @ nl"
    and g: "g = pre_groups pre (micro_groups mc [''major'' \<mapsto> ?ma, ''minor'' \<mapsto> ?mi])"
    using tail_micro_sound [OF r3] by blast
  let ?v = "\<lparr>major = ?ma, minor = ?mi, micro = mc, prerelease = pre\<rparr>"
  have "s = ?ma @ dropWhile isdecimal s" by simp
  also have "\<dots> = ?ma @ (ord CHR ''.'') # (?mi @ dropWhile isdecimal t)" using t by simp
  finally have "s = short_text ?v @ nl" using u by (simp add: short_text_def)
  moreover have "matchable ?v"
    using ma mi mc pre by (simp add: matchable_def)
  moreover have "g = groups_of ?v" using g by (simp add: groups_of_def)
  ultimately show ?thesis using nl by blast
qed

section \<open>From a match to the printed value\<close>

lemma groups_of_major: "groups_of v ''major'' = Some (major v)"
  by (simp add: groups_of_def pre_groups_def micro_groups_def split: option.splits)

lemma groups_of_minor: "groups_of v ''minor'' = Some (minor v)"
  by (simp add: groups_of_def pre_groups_def micro_groups_def split: option.splits)

lemma groups_of_micro: "groups_of v ''micro'' = micro v"
  by (simp add: groups_of_def pre_groups_def micro_groups_def split: option.splits)

lemma groups_of_prekind: "groups_of v ''prekind'' = map_option fst (prerelease v)"
  by (simp add: groups_of_def pre_groups_def micro_groups_def split: option.splits)

lemma groups_of_preval: "groups_of v ''preval'' = map_option snd (prerelease v)"
  by (simp add: groups_of_def pre_groups_def micro_groups_def split: option.splits)

lemmas groups_of_simps =
  groups_of_major groups_of_minor groups_of_micro groups_of_prekind groups_of_preval

lemma lookup_kind:
  assumes "k = lit ''a'' \<or> k = lit ''b'' \<or> k = lit ''rc''"
  shows "dict_get prerelease_kinds k (lit ''dev'') = long_kind k"
  using assms by (auto simp add: dict_get_def prerelease_kinds_def long_kind_def)

lemma reassemble_groups:
  assumes "matchable v"
  shows "reassemble (groups_of v) = canonical v"
proof -
  have mc: "truthy (micro v) = (micro v \<noteq> None)"
    using assms token_nonempty
    by (cases "micro v") (auto simp add: truthy_def matchable_def token_micro_def)
  show ?thesis
  proof (cases "prerelease v")
    case None
    then show ?thesis using mc
      by (cases "micro v")
         (simp_all add: reassemble_def groups_of_simps canonical_def truthy_def fmt_def)
  next
    case (Some kn)
    obtain k n where kn: "kn = (k, n)" by (cases kn)
    have k: "k = lit ''a'' \<or> k = lit ''b'' \<or> k = lit ''rc''"
      using assms Some kn by (simp add: matchable_def token_pre_def)
    then have "k \<noteq> []" by auto
    then show ?thesis using mc Some kn lookup_kind [OF k]
      by (cases "micro v")
         (simp_all add: reassemble_def groups_of_simps canonical_def truthy_def fmt_def)
  qed
qed

lemma resolve_v:
  "resolve (ord CHR ''v'' # rest) =
     (case re_match shortform rest of None \<Rightarrow> rest | Some m \<Rightarrow> reassemble m)"
  by (simp add: resolve_def startswith_def)

lemma resolve_release:
  "resolve (lit ''release/'' @ rest) =
     (case re_match shortform rest of None \<Rightarrow> rest | Some m \<Rightarrow> reassemble m)"
  by (simp add: resolve_def startswith_def)

lemma resolve_other:
  "\<not> startswith b (lit ''v'') \<Longrightarrow> \<not> startswith b (lit ''release/'') \<Longrightarrow> resolve b = b"
  by (simp add: resolve_def)

lemma main_ok:
  "strip arg \<noteq> [] \<Longrightarrow>
     main [prog, arg] =
       \<lparr>exit_code = 0, stdout = print (set_output (resolve (strip arg))), stderr = []\<rparr>"
  by (simp add: main_def)

lemma resolve_short:
  assumes "matchable v"
    and "b = lit ''v'' @ short_text v \<or> b = lit ''release/'' @ short_text v"
  shows "resolve b = canonical v"
proof -
  have "re_match shortform (short_text v) = Some (groups_of v)"
    using shortform_complete [OF assms(1), of "[]"] by (simp add: at_end_def)
  then show ?thesis
    using assms(2) reassemble_groups [OF assms(1)] resolve_v [of "short_text v"]
      resolve_release [of "short_text v"]
    by auto
qed


lemma posint_token: "is_posint t \<Longrightarrow> is_token t"
  by (cases t) (auto simp add: is_posint_def is_token_def list_all_iff isdigit_decimal)

lemma well_formed_matchable: "well_formed v \<Longrightarrow> matchable v"
  by (auto simp add: well_formed_def matchable_def well_formed_micro_def token_micro_def
      well_formed_pre_def token_pre_def posint_token split: option.splits)

lemma short_form_pattern: "short_form s \<Longrightarrow> pattern_form s"
  unfolding short_form_def pattern_form_def using well_formed_matchable by blast

section \<open>The claims\<close>

text \<open>
  C1. When the trimmed argument is \<open>v\<close> or \<open>release/\<close> followed by a string in
  short form, the value printed is MAJOR, MINOR and MICRO joined by dots, MICRO being
  \<open>0\<close> when the input has none, followed by a hyphen, the long kind, a dot and the
  prerelease value exactly when the input has a prerelease marker; the long kind is
  \<open>alpha\<close> for \<open>a\<close>, \<open>beta\<close> for \<open>b\<close> and \<open>rc\<close> for \<open>rc\<close>.
\<close>

theorem C1_short_form_is_normalised:
  assumes "well_formed v"
    and "strip arg = lit ''v'' @ short_text v \<or> strip arg = lit ''release/'' @ short_text v"
  shows "resolve (strip arg) =
           major v @ lit ''.'' @ minor v @ lit ''.'' @ (case micro v of None \<Rightarrow> lit ''0'' | Some m \<Rightarrow> m) @
           (case prerelease v of None \<Rightarrow> []
            | Some (k, n) \<Rightarrow>
                lit ''-'' @ (if k = lit ''a'' then lit ''alpha'' else if k = lit ''b'' then lit ''beta'' else lit ''rc'') @
                lit ''.'' @ n)
         \<and> main [prog, arg] =
             \<lparr>exit_code = 0,
              stdout = lit ''::set-output name=version::'' @ resolve (strip arg) @ [newline],
              stderr = []\<rparr>"
proof -
  have ne: "strip arg \<noteq> []" using assms(2) by auto
  have k: "long_kind k = (if k = lit ''a'' then lit ''alpha'' else if k = lit ''b'' then lit ''beta'' else lit ''rc'')"
    if "prerelease v = Some (k, n)" for k n
    using that assms(1) by (auto simp add: well_formed_def well_formed_pre_def long_kind_def)
  have "resolve (strip arg) = canonical v"
    using resolve_short [OF well_formed_matchable [OF assms(1)] assms(2)] .
  moreover have "canonical v =
           major v @ lit ''.'' @ minor v @ lit ''.'' @ (case micro v of None \<Rightarrow> lit ''0'' | Some m \<Rightarrow> m) @
           (case prerelease v of None \<Rightarrow> []
            | Some (k, n) \<Rightarrow>
                lit ''-'' @ (if k = lit ''a'' then lit ''alpha'' else if k = lit ''b'' then lit ''beta'' else lit ''rc'') @
                lit ''.'' @ n)"
    using k by (cases "prerelease v") (auto simp add: canonical_def)
  ultimately show ?thesis
    using main_ok [OF ne, of prog] by (simp add: print_def set_output_def)
qed

theorem C1_short_form_is_normalised_witness:
  "well_formed \<lparr>major = lit ''1'', minor = lit ''2'', micro = None, prerelease = Some (lit ''a'', lit ''3'')\<rparr>
   \<and> strip (lit '' v1.2a3 '') =
       lit ''v'' @ short_text \<lparr>major = lit ''1'', minor = lit ''2'', micro = None, prerelease = Some (lit ''a'', lit ''3'')\<rparr>
   \<and> resolve (strip (lit '' v1.2a3 '')) = lit ''1.2.0-alpha.3''
   \<and> main [lit ''determine-version.py'', lit '' v1.2a3 ''] =
       \<lparr>exit_code = 0, stdout = lit ''::set-output name=version::1.2.0-alpha.3'' @ [newline],
        stderr = []\<rparr>"
proof -
  let ?v = "\<lparr>major = lit ''1'', minor = lit ''2'', micro = None, prerelease = Some (lit ''a'', lit ''3'')\<rparr>"
  have wf: "well_formed ?v"
    by (simp add: well_formed_def well_formed_micro_def well_formed_pre_def is_posint_def
        isdigit_def ord_def)
  have st: "strip (lit '' v1.2a3 '') = lit ''v'' @ short_text ?v \<or>
            strip (lit '' v1.2a3 '') = lit ''release/'' @ short_text ?v"
    by (simp add: strip_def isspace_def short_text_def micro_text_def pre_text_def ord_def)
  have st': "strip (lit '' v1.2a3 '') = lit ''v1.2a3''"
    by (simp add: strip_def isspace_def ord_def)
  show ?thesis
    using wf st st' C1_short_form_is_normalised [OF wf st, of "lit ''determine-version.py''"]
    by (simp add: short_text_def micro_text_def pre_text_def)
qed

lemma dropWhile_all:
  "(\<forall>x\<in>set (dropWhile P xs). P x) = (\<forall>x\<in>set xs. P x)"
proof
  assume a: "\<forall>x\<in>set (dropWhile P xs). P x"
  have "dropWhile P xs = []"
  proof (rule ccontr)
    assume n: "dropWhile P xs \<noteq> []"
    then have "\<not> P (hd (dropWhile P xs))" by (rule hd_dropWhile)
    moreover have "hd (dropWhile P xs) \<in> set (dropWhile P xs)" using n by simp
    ultimately show False using a by blast
  qed
  then show "\<forall>x\<in>set xs. P x" by (simp add: dropWhile_eq_Nil_conv)
next
  assume "\<forall>x\<in>set xs. P x"
  then show "\<forall>x\<in>set (dropWhile P xs). P x" by (meson set_dropWhileD)
qed

lemma strip_empty_iff: "(strip a = []) = list_all isspace a"
  by (simp add: strip_def list_all_iff dropWhile_eq_Nil_conv dropWhile_all)

text \<open>
  C2. The script exits with code 1, prints the usage message on the error channel and
  nothing on the output channel, exactly when \<open>sys.argv\<close> does not hold exactly one
  positional argument or that argument consists of whitespace only (the empty argument
  included); in every other case it exits with code 0.
\<close>

theorem C2_usage_error_iff:
  "(main argv =
      \<lparr>exit_code = 1, stdout = [],
       stderr = lit ''error: branch name not passed as a sole argument. On GHA pass it as part of `client_payload`.''
                @ [newline]\<rparr>)
     = (length argv \<noteq> 2 \<or> list_all isspace (argv ! 1))
   \<and> (exit_code (main argv) = 1) = (length argv \<noteq> 2 \<or> list_all isspace (argv ! 1))
   \<and> (\<not> (length argv \<noteq> 2 \<or> list_all isspace (argv ! 1)) \<longrightarrow> exit_code (main argv) = 0)"
  by (simp add: main_def print_def usage_error_def strip_empty_iff)

theorem C2_usage_error_iff_witness:
  "main [lit ''determine-version.py''] =
      \<lparr>exit_code = 1, stdout = [],
       stderr = lit ''error: branch name not passed as a sole argument. On GHA pass it as part of `client_payload`.''
                @ [newline]\<rparr>
   \<and> exit_code (main [lit ''determine-version.py'', lit ''  '']) = 1
   \<and> exit_code (main [lit ''determine-version.py'', lit ''v1.2'', lit ''x'']) = 1
   \<and> \<not> (length [lit ''determine-version.py'', lit ''v1.2''] \<noteq> 2
          \<or> list_all isspace ([lit ''determine-version.py'', lit ''v1.2''] ! 1))
   \<and> exit_code (main [lit ''determine-version.py'', lit ''v1.2'']) = 0"
  using C2_usage_error_iff [of "[lit ''determine-version.py'']"]
    C2_usage_error_iff [of "[lit ''determine-version.py'', lit ''  '']"]
    C2_usage_error_iff [of "[lit ''determine-version.py'', lit ''v1.2'', lit ''x'']"]
    C2_usage_error_iff [of "[lit ''determine-version.py'', lit ''v1.2'']"]
  by (simp add: isspace_def ord_def)

text \<open>
  C3. When the trimmed argument is not empty and starts with neither \<open>v\<close> nor
  \<open>release/\<close>, the value printed is the trimmed argument itself, also when that
  argument is in short form.
\<close>

theorem C3_no_prefix_passes_through:
  assumes "strip arg \<noteq> []"
    and "\<not> startswith (strip arg) (lit ''v'')" and "\<not> startswith (strip arg) (lit ''release/'')"
  shows "resolve (strip arg) = strip arg
         \<and> main [prog, arg] =
             \<lparr>exit_code = 0,
              stdout = lit ''::set-output name=version::'' @ strip arg @ [newline],
              stderr = []\<rparr>"
  using assms main_ok [OF assms(1), of prog] resolve_other [OF assms(2,3)]
  by (simp add: print_def set_output_def)

theorem C3_no_prefix_passes_through_witness:
  "strip (lit '' 1.2'') \<noteq> [] \<and> \<not> startswith (strip (lit '' 1.2'')) (lit ''v'')
   \<and> \<not> startswith (strip (lit '' 1.2'')) (lit ''release/'')
   \<and> short_form (lit ''1.2'')
   \<and> main [lit ''determine-version.py'', lit '' 1.2''] =
       \<lparr>exit_code = 0, stdout = lit ''::set-output name=version::1.2'' @ [newline], stderr = []\<rparr>"
proof -
  have st: "strip (lit '' 1.2'') = lit ''1.2''" by (simp add: strip_def isspace_def ord_def)
  have h1: "strip (lit '' 1.2'') \<noteq> []" using st by simp
  have h2: "\<not> startswith (strip (lit '' 1.2'')) (lit ''v'')"
    using st by (simp add: startswith_def)
  have h3: "\<not> startswith (strip (lit '' 1.2'')) (lit ''release/'')"
    using st by (simp add: startswith_def)
  have "well_formed \<lparr>major = lit ''1'', minor = lit ''2'', micro = None, prerelease = None\<rparr>"
    by (simp add: well_formed_def well_formed_micro_def well_formed_pre_def is_posint_def
        isdigit_def ord_def)
  moreover have "lit ''1.2'' = short_text \<lparr>major = lit ''1'', minor = lit ''2'', micro = None, prerelease = None\<rparr>"
    by (simp add: short_text_def micro_text_def pre_text_def)
  ultimately have sf: "short_form (lit ''1.2'')" unfolding short_form_def by blast
  show ?thesis
    using st h1 h2 h3 sf
      C3_no_prefix_passes_through [OF h1 h2 h3, of "lit ''determine-version.py''"]
    by simp
qed

lemma no_match_empty: "re_match shortform [] = None"
  by (simp add: re_match_def rmatch_shortform is_token_def)

lemma no_match_nondigit:
  assumes "rest = [] \<or> \<not> isdecimal (hd rest)"
  shows "re_match shortform rest = None"
proof -
  have "takeWhile isdecimal rest = []" using assms by (cases rest) auto
  then show ?thesis by (simp add: re_match_def rmatch_shortform is_token_def)
qed

text \<open>
  C9. When the trimmed argument is exactly \<open>v\<close> or exactly \<open>release/\<close>, the
  remainder after the prefix is empty, the pattern does not match it, and the script
  succeeds with exit code 0 and prints the output line with an empty value.
\<close>

theorem C9_bare_prefix_gives_empty_value:
  assumes "strip arg = lit ''v'' \<or> strip arg = lit ''release/''"
  shows "re_match shortform [] = None
         \<and> resolve (strip arg) = []
         \<and> main [prog, arg] =
             \<lparr>exit_code = 0, stdout = lit ''::set-output name=version::'' @ [newline],
              stderr = []\<rparr>"
proof -
  have ne: "strip arg \<noteq> []" using assms by auto
  have "resolve (strip arg) = []"
    using assms resolve_v [of "[]"] resolve_release [of "[]"] by (auto simp add: no_match_empty)
  then show ?thesis
    using main_ok [OF ne, of prog] by (simp add: no_match_empty print_def set_output_def)
qed

theorem C9_bare_prefix_gives_empty_value_witness:
  "(strip (lit ''release/ '') = lit ''v'' \<or> strip (lit ''release/ '') = lit ''release/'')
   \<and> main [lit ''determine-version.py'', lit ''release/ ''] =
       \<lparr>exit_code = 0, stdout = lit ''::set-output name=version::'' @ [newline], stderr = []\<rparr>
   \<and> (strip (lit ''v'') = lit ''v'' \<or> strip (lit ''v'') = lit ''release/'')
   \<and> main [lit ''determine-version.py'', lit ''v''] =
       \<lparr>exit_code = 0, stdout = lit ''::set-output name=version::'' @ [newline], stderr = []\<rparr>"
proof -
  have h1: "strip (lit ''release/ '') = lit ''v'' \<or> strip (lit ''release/ '') = lit ''release/''"
    by (simp add: strip_def isspace_def ord_def)
  have h2: "strip (lit ''v'') = lit ''v'' \<or> strip (lit ''v'') = lit ''release/''"
    by (simp add: strip_def isspace_def ord_def)
  show ?thesis
    using h1 h2 C9_bare_prefix_gives_empty_value [OF h1, of "lit ''determine-version.py''"]
      C9_bare_prefix_gives_empty_value [OF h2, of "lit ''determine-version.py''"]
    by simp
qed

text \<open>
  C10. One prefix is removed, once. When the remainder after a removed prefix itself
  starts with \<open>v\<close> or \<open>release/\<close>, it is printed as it stands, neither stripped
  again nor normalised; so is every remainder that the pattern does not match. The
  test for \<open>v\<close> comes first, and no argument starts with both prefixes. The prefixes are matched case-sensitively: an argument that
  starts with an upper-case \<open>V\<close> or \<open>R\<close> has no recognised prefix and is printed
  unchanged. In particular \<open>vv1.2.3\<close> and \<open>release/v1.2.3\<close> give \<open>v1.2.3\<close>,
  and \<open>V1.2.3\<close> gives \<open>V1.2.3\<close>.
\<close>

theorem C10_prefix_stripped_once:
  "(startswith rest (lit ''v'') \<or> startswith rest (lit ''release/'') \<longrightarrow>
      resolve (lit ''v'' @ rest) = rest \<and> resolve (lit ''release/'' @ rest) = rest)
   \<and> (re_match shortform rest = None \<longrightarrow>
      resolve (lit ''v'' @ rest) = rest \<and> resolve (lit ''release/'' @ rest) = rest)
   \<and> (startswith b (lit ''v'') \<longrightarrow> \<not> startswith b (lit ''release/''))
   \<and> (startswith b (lit ''V'') \<or> startswith b (lit ''R'') \<longrightarrow> resolve b = b)
   \<and> resolve (lit ''vv1.2.3'') = lit ''v1.2.3''
   \<and> resolve (lit ''release/v1.2.3'') = lit ''v1.2.3''
   \<and> resolve (lit ''V1.2.3'') = lit ''V1.2.3''
   \<and> main [prog, lit ''vv1.2.3''] =
       \<lparr>exit_code = 0, stdout = lit ''::set-output name=version::v1.2.3'' @ [newline], stderr = []\<rparr>
   \<and> main [prog, lit ''release/v1.2.3''] =
       \<lparr>exit_code = 0, stdout = lit ''::set-output name=version::v1.2.3'' @ [newline], stderr = []\<rparr>
   \<and> main [prog, lit ''V1.2.3''] =
       \<lparr>exit_code = 0, stdout = lit ''::set-output name=version::V1.2.3'' @ [newline], stderr = []\<rparr>"
proof -
  have a: "resolve (lit ''v'' @ r) = r \<and> resolve (lit ''release/'' @ r) = r"
    if "startswith r (lit ''v'') \<or> startswith r (lit ''release/'')" for r
  proof -
    have "r = [] \<or> \<not> isdecimal (hd r)"
      using that by (cases r) (auto simp add: startswith_def)
    then have "re_match shortform r = None" by (rule no_match_nondigit)
    then show ?thesis using resolve_v [of r] resolve_release [of r] by simp
  qed
  have b: "resolve c = c" if "startswith c (lit ''V'') \<or> startswith c (lit ''R'')" for c
  proof -
    have "\<not> startswith c (lit ''v'')" "\<not> startswith c (lit ''release/'')"
      using that by (cases c; auto simp add: startswith_def)+
    then show ?thesis by (rule resolve_other)
  qed
  have n: "resolve (lit ''v'' @ r) = r \<and> resolve (lit ''release/'' @ r) = r"
    if "re_match shortform r = None" for r
    using that resolve_v [of r] resolve_release [of r] by simp
  have x: "\<not> startswith c (lit ''release/'')" if "startswith c (lit ''v'')" for c
    using that by (cases c) (auto simp add: startswith_def)
  have v: "startswith (lit ''v1.2.3'') (lit ''v'')" and u: "startswith (lit ''V1.2.3'') (lit ''V'')"
    by (simp_all add: startswith_def)
  have r1: "resolve (lit ''vv1.2.3'') = lit ''v1.2.3''"
    and r2: "resolve (lit ''release/v1.2.3'') = lit ''v1.2.3''"
    using a [of "lit ''v1.2.3''"] v by simp_all
  have r3: "resolve (lit ''V1.2.3'') = lit ''V1.2.3''"
    using b [of "lit ''V1.2.3''"] u by simp
  have s: "strip (lit ''vv1.2.3'') = lit ''vv1.2.3''" "strip (lit ''release/v1.2.3'') = lit ''release/v1.2.3''"
    "strip (lit ''V1.2.3'') = lit ''V1.2.3''"
    by (simp_all add: strip_def isspace_def ord_def)
  show ?thesis
    using a b n x r1 r2 r3 s by (simp add: main_def print_def set_output_def)
qed

theorem C10_prefix_stripped_once_witness:
  "(startswith (lit ''release/9'') (lit ''v'') \<or> startswith (lit ''release/9'') (lit ''release/''))
   \<and> resolve (lit ''v'' @ lit ''release/9'') = lit ''release/9''
   \<and> resolve (lit ''release/'' @ lit ''release/9'') = lit ''release/9''
   \<and> re_match shortform (lit ''release/9'') = None
   \<and> (startswith (lit ''Release/1.2'') (lit ''V'') \<or> startswith (lit ''Release/1.2'') (lit ''R''))
   \<and> resolve (lit ''Release/1.2'') = lit ''Release/1.2''
   \<and> startswith (lit ''v1'') (lit ''v'') \<and> \<not> startswith (lit ''v1'') (lit ''release/'')"
proof -
  have h1: "startswith (lit ''release/9'') (lit ''v'') \<or> startswith (lit ''release/9'') (lit ''release/'')"
    by (simp add: startswith_def)
  have h2: "startswith (lit ''Release/1.2'') (lit ''V'') \<or> startswith (lit ''Release/1.2'') (lit ''R'')"
    by (simp add: startswith_def)
  have h3: "re_match shortform (lit ''release/9'') = None"
    by (rule no_match_nondigit) simp
  have h4: "startswith (lit ''v1'') (lit ''v'')" by (simp add: startswith_def)
  show ?thesis
    using h1 h2 h3 h4 C10_prefix_stripped_once [of "lit ''release/9''" "lit ''Release/1.2''" "[]"]
      C10_prefix_stripped_once [of "lit ''release/9''" "lit ''v1''" "[]"]
    by simp
qed

lemma strip_last_nonspace:
  assumes "strip s = t @ [c]"
  shows "\<not> isspace c"
proof -
  let ?d = "dropWhile isspace (rev (dropWhile isspace s))"
  have "rev (strip s) = ?d" by (simp add: strip_def)
  then have d: "?d = c # rev t" using assms by simp
  then have "?d \<noteq> []" by simp
  then have "\<not> isspace (hd ?d)" by (rule hd_dropWhile)
  then show ?thesis using d by simp
qed

lemma match_trimmed:
  assumes st: "strip arg = pfx @ rest" and m: "re_match shortform rest = Some g"
  shows "pattern_form rest"
proof -
  obtain v nl where wf: "matchable v" and nl: "at_end nl" and r: "rest = short_text v @ nl"
    using shortform_sound [OF m] by blast
  have "nl = []"
  proof (rule ccontr)
    assume "nl \<noteq> []"
    then have "nl = [newline]" using nl by (simp add: at_end_def)
    then have "strip arg = (pfx @ short_text v) @ [newline]" using st r by simp
    then have "\<not> isspace newline" by (rule strip_last_nonspace)
    then show False by (simp add: isspace_def ord_def)
  qed
  then show ?thesis using wf r unfolding pattern_form_def by auto
qed

lemma lz_digits: "list_all isdecimal ds \<Longrightarrow> leading_zero_from True (ds @ u) = leading_zero_from True u"
  by (induction ds) simp_all

lemma lz_posint:
  assumes t: "is_token t" and u: "u = [] \<or> \<not> isdecimal (hd u)"
  shows "leading_zero_from False (t @ u) = leading_zero_from True u"
proof (cases "t = lit ''0''")
  case True
  then show ?thesis using u by auto
next
  case False
  then obtain d ds where c: "t = d # ds" and d: "d \<noteq> ord CHR ''0''" and "list_all isdecimal (d # ds)"
    using t by (cases t) (auto simp add: is_token_def)
  then have "isdecimal d" and "list_all isdecimal ds" by simp_all
  then show ?thesis using c d lz_digits [of ds u] by simp
qed

lemma lz_pre:
  assumes "token_pre pre"
  shows "\<not> leading_zero_from True (pre_text pre)"
proof (cases pre)
  case None
  then show ?thesis by (simp add: pre_text_def)
next
  case (Some kn)
  obtain k n where kn: "kn = (k, n)" by (cases kn)
  have n: "is_token n" and k: "k = lit ''a'' \<or> k = lit ''b'' \<or> k = lit ''rc''"
    using assms Some kn by (simp_all add: token_pre_def)
  have "\<not> leading_zero_from False n" using lz_posint [OF n, of "[]"] by simp
  then show ?thesis using k Some kn by (auto simp add: pre_text_def)
qed

lemma lz_micro:
  assumes mc: "token_micro mc" and pre: "token_pre pre"
  shows "\<not> leading_zero_from True (micro_text mc @ pre_text pre)"
proof (cases mc)
  case None
  then show ?thesis using lz_pre [OF pre] by (simp add: micro_text_def)
next
  case (Some m)
  then have m: "is_token m" using mc by (simp add: token_micro_def)
  have "at_end []" by (simp add: at_end_def)
  then have "pre_text pre = [] \<or> \<not> isdecimal (hd (pre_text pre))"
    using pre_start [OF pre, of "[]"] by auto
  then show ?thesis using Some lz_posint [OF m] lz_pre [OF pre] by (simp add: micro_text_def)
qed

lemma pattern_form_no_leading_zero:
  assumes "pattern_form s"
  shows "\<not> leading_zero s"
proof -
  obtain v where wf: "matchable v" and s: "s = short_text v"
    using assms unfolding pattern_form_def by blast
  have ma: "is_token (major v)" and mi: "is_token (minor v)"
    and mc: "token_micro (micro v)" and pre: "token_pre (prerelease v)"
    using wf by (simp_all add: matchable_def)
  let ?t = "micro_text (micro v) @ pre_text (prerelease v)"
  have "at_end []" by (simp add: at_end_def)
  then have t: "?t = [] \<or> \<not> isdecimal (hd ?t)"
    using micro_start [OF pre, of "[]" "micro v"] by simp
  have "leading_zero s = leading_zero_from False (major v @ (ord CHR ''.'' # minor v @ ?t))"
    by (simp add: s short_text_def leading_zero_def)
  also have "\<dots> = leading_zero_from True (ord CHR ''.'' # minor v @ ?t)"
    by (rule lz_posint [OF ma]) simp
  also have "\<dots> = leading_zero_from False (minor v @ ?t)" by simp
  also have "\<dots> = leading_zero_from True ?t" by (rule lz_posint [OF mi t])
  finally show ?thesis using lz_micro [OF mc pre] by simp
qed


lemma posint_below_256:
  assumes "is_posint t" and "c \<in> set t"
  shows "c < 256"
proof -
  have "t = lit ''0'' \<or> list_all isdigit t" using assms(1) by (auto simp add: is_posint_def)
  then show ?thesis
    using assms(2) ord_less_256 [of "CHR ''0''"] by (auto simp add: list_all_iff isdigit_def)
qed

lemma short_text_below_256:
  assumes wf: "well_formed v" and c: "c \<in> set (short_text v)"
  shows "c < 256"
proof -
  have l: "\<And>x s. x \<in> set (lit s) \<Longrightarrow> x < 256"
    using ord_less_256 by (auto simp add: lit_def)
  have ma: "is_posint (major v)" and mi: "is_posint (minor v)"
    and mc: "well_formed_micro (micro v)" and pre: "well_formed_pre (prerelease v)"
    using wf by (simp_all add: well_formed_def)
  have m: "x < 256" if "x \<in> set (micro_text (micro v))" for x
    using that mc posint_below_256 ord_less_256 [of "CHR ''.''"]
    by (cases "micro v") (auto simp add: micro_text_def well_formed_micro_def)
  have p: "x < 256" if "x \<in> set (pre_text (prerelease v))" for x
    using that pre posint_below_256 l
    by (cases "prerelease v") (auto simp add: pre_text_def well_formed_pre_def ord_less_256)
  show ?thesis
    using c m p posint_below_256 [OF ma] posint_below_256 [OF mi] ord_less_256 [of "CHR ''.''"]
    by (auto simp add: short_text_def)
qed

lemma short_form_no_wide:
  assumes "short_form s"
  shows "\<not> list_ex wide_digit s"
proof
  assume "list_ex wide_digit s"
  then obtain c where c: "c \<in> set s" and w: "wide_digit c" by (auto simp add: list_ex_iff)
  obtain v where "well_formed v" and "s = short_text v"
    using assms unfolding short_form_def by blast
  then have "c < 256" using c short_text_below_256 by blast
  then show False using wide_digit_large [OF w] by simp
qed

lemma lit_no_wide: "\<not> list_ex wide_digit (lit s)"
proof
  assume "list_ex wide_digit (lit s)"
  then obtain x where "wide_digit (ord x)" by (auto simp add: list_ex_iff lit_def)
  then have "1632 \<le> ord x" by (rule wide_digit_large)
  then show False using ord_less_256 [of x] by simp
qed

lemma ascii_token_posint:
  assumes "is_token t" and "\<not> list_ex wide_digit t"
  shows "is_posint t"
proof -
  have "isdigit c" if "c \<in> set t" and "isdecimal c" for c
    using that assms(2) by (auto simp add: isdecimal_def list_ex_iff)
  then have "list_all isdecimal t \<Longrightarrow> list_all isdigit t" by (auto simp add: list_all_iff)
  then show ?thesis using assms(1) by (auto simp add: is_token_def is_posint_def)
qed

lemma ascii_pattern_short:
  assumes p: "pattern_form s" and nw: "\<not> list_ex wide_digit s"
  shows "short_form s"
proof -
  obtain v where m: "matchable v" and s: "s = short_text v"
    using p unfolding pattern_form_def by blast
  have sub: "\<not> list_ex wide_digit t" if "set t \<subseteq> set s" for t
    using that nw by (auto simp add: list_ex_iff)
  have "is_posint (major v)" "is_posint (minor v)"
    using m sub s by (auto simp add: matchable_def short_text_def intro!: ascii_token_posint)
  moreover have "well_formed_micro (micro v)"
    using m sub s
    by (cases "micro v")
       (auto simp add: matchable_def token_micro_def well_formed_micro_def short_text_def
          micro_text_def intro!: ascii_token_posint)
  moreover have "well_formed_pre (prerelease v)"
    using m sub s
    by (cases "prerelease v")
       (auto simp add: matchable_def token_pre_def well_formed_pre_def short_text_def
          pre_text_def intro!: ascii_token_posint)
  ultimately have "well_formed v" by (simp add: well_formed_def)
  then show ?thesis using s unfolding short_form_def by blast
qed

text \<open>
  C4 (as amended). When the trimmed argument is \<open>v\<close> or \<open>release/\<close> followed by a
  remainder that is not in the grammar of the pattern, the script succeeds and prints
  the remainder as it stands. This covers every remainder that is outside the short
  form of the specification and holds no decimal digit other than \<open>0\<close> to \<open>9\<close>, and
  every remainder in which a run of two or more decimal digits starts with \<open>0\<close>.
\<close>

theorem C4_no_match_passes_remainder:
  assumes "strip arg = lit ''v'' @ rest \<or> strip arg = lit ''release/'' @ rest"
    and "\<not> pattern_form rest \<or> (\<not> short_form rest \<and> \<not> list_ex wide_digit rest)
         \<or> leading_zero rest"
  shows "\<not> pattern_form rest
         \<and> \<not> short_form rest
         \<and> re_match shortform rest = None
         \<and> resolve (strip arg) = rest
         \<and> main [prog, arg] =
             \<lparr>exit_code = 0, stdout = lit ''::set-output name=version::'' @ rest @ [newline],
              stderr = []\<rparr>"
proof -
  have np: "\<not> pattern_form rest"
    using assms(2) pattern_form_no_leading_zero ascii_pattern_short by blast
  then have ns: "\<not> short_form rest" using short_form_pattern by blast
  obtain pfx where "strip arg = pfx @ rest" using assms(1) by blast
  then have nm: "re_match shortform rest = None"
    using match_trimmed [of arg pfx rest] np by (cases "re_match shortform rest") auto
  have ne: "strip arg \<noteq> []" using assms(1) by auto
  have "resolve (strip arg) = rest"
    using assms(1) nm resolve_v [of rest] resolve_release [of rest] by auto
  then show ?thesis
    using np ns nm main_ok [OF ne, of prog] by (simp add: print_def set_output_def)
qed

theorem C4_no_match_passes_remainder_witness:
  "(strip (lit ''v01.2.3'') = lit ''v'' @ lit ''01.2.3''
      \<or> strip (lit ''v01.2.3'') = lit ''release/'' @ lit ''01.2.3'')
   \<and> leading_zero (lit ''01.2.3'')
   \<and> main [lit ''determine-version.py'', lit ''v01.2.3''] =
       \<lparr>exit_code = 0, stdout = lit ''::set-output name=version::01.2.3'' @ [newline],
        stderr = []\<rparr>
   \<and> (strip (lit ''release/next'') = lit ''v'' @ lit ''next''
      \<or> strip (lit ''release/next'') = lit ''release/'' @ lit ''next'')
   \<and> \<not> pattern_form (lit ''next'')
   \<and> \<not> list_ex wide_digit (lit ''next'')
   \<and> main [lit ''determine-version.py'', lit ''release/next''] =
       \<lparr>exit_code = 0, stdout = lit ''::set-output name=version::next'' @ [newline],
        stderr = []\<rparr>"
proof -
  have h1: "strip (lit ''v01.2.3'') = lit ''v'' @ lit ''01.2.3'' \<or>
            strip (lit ''v01.2.3'') = lit ''release/'' @ lit ''01.2.3''"
    by (simp add: strip_def isspace_def ord_def)
  have l: "leading_zero (lit ''01.2.3'')"
    by (simp add: leading_zero_def isdecimal_ord) (simp add: isdigit_def ord_def)
  then have h2: "\<not> pattern_form (lit ''01.2.3'') \<or>
                 (\<not> short_form (lit ''01.2.3'') \<and> \<not> list_ex wide_digit (lit ''01.2.3''))
                 \<or> leading_zero (lit ''01.2.3'')" by simp
  have h3: "strip (lit ''release/next'') = lit ''v'' @ lit ''next'' \<or>
            strip (lit ''release/next'') = lit ''release/'' @ lit ''next''"
    by (simp add: strip_def isspace_def ord_def)
  have "re_match shortform (lit ''next'') = None"
    by (rule no_match_nondigit) (simp add: isdecimal_ord, simp add: isdigit_def ord_def)
  then have n: "\<not> pattern_form (lit ''next'')"
    using shortform_complete [of _ "[]"] unfolding pattern_form_def
    by (auto simp add: at_end_def)
  have w: "\<not> list_ex wide_digit (lit ''next'')"
    by (rule lit_no_wide)
  have h4: "\<not> pattern_form (lit ''next'') \<or>
            (\<not> short_form (lit ''next'') \<and> \<not> list_ex wide_digit (lit ''next''))
            \<or> leading_zero (lit ''next'')" using n by simp
  show ?thesis
    using h1 l h3 n w C4_no_match_passes_remainder [OF h1 h2, of "lit ''determine-version.py''"]
      C4_no_match_passes_remainder [OF h3 h4, of "lit ''determine-version.py''"]
    by simp
qed

text \<open>
  C4 as stated fails: the remainder \<open>1.2\<close> followed by ARABIC-INDIC DIGIT THREE is
  not in the short form of the specification, whose digits are \<open>0\<close> to \<open>9\<close>, yet the
  pattern matches it and the script prints it normalised, not as it stands.
\<close>

theorem C4_wide_digit_counterexample:
  "strip (lit ''v1.2'' @ [0x663]) = lit ''v'' @ (lit ''1.2'' @ [0x663])
   \<and> \<not> short_form (lit ''1.2'' @ [0x663])
   \<and> main [lit ''determine-version.py'', lit ''v1.2'' @ [0x663]] =
       \<lparr>exit_code = 0,
        stdout = lit ''::set-output name=version::'' @ (lit ''1.2'' @ [0x663] @ lit ''.0'') @ [newline],
        stderr = []\<rparr>
   \<and> lit ''1.2'' @ [0x663] @ lit ''.0'' \<noteq> lit ''1.2'' @ [0x663]"
proof -
  have w: "list_ex wide_digit (lit ''1.2'' @ [0x663])"
    by (simp add: wide_digit_def wide_digit_starts_def)
  then have ns: "\<not> short_form (lit ''1.2'' @ [0x663])"
    using short_form_no_wide by blast
  have ev: "strip (lit ''v1.2'' @ [0x663]) = lit ''v'' @ (lit ''1.2'' @ [0x663])
    \<and> main [lit ''determine-version.py'', lit ''v1.2'' @ [0x663]] =
       \<lparr>exit_code = 0,
        stdout = lit ''::set-output name=version::'' @ (lit ''1.2'' @ [0x663] @ lit ''.0'') @ [newline],
        stderr = []\<rparr>"
    by (simp add: main_def strip_def isspace_def print_def set_output_def resolve_def
        startswith_def ord_def re_match_def shortform_def posint_def prekind_re_def
        isdecimal_def isdigit_def wide_digit_def wide_digit_starts_def reassemble_def
        truthy_def fmt_def dict_get_def prerelease_kinds_def)
  show ?thesis using ns ev by simp
qed

lemma canonical_no_d:
  assumes "matchable v"
  shows "ord CHR ''d'' \<notin> set (canonical v)"
proof -
  have p: "ord CHR ''d'' \<notin> set t" if "is_token t" for t
  proof
    assume "ord CHR ''d'' \<in> set t"
    moreover have "\<forall>c\<in>set t. isdecimal c" using token_digits [OF that] by (simp add: list_all_iff)
    ultimately have "isdecimal (ord CHR ''d'')" by blast
    then show False by simp
  qed
  have ma: "is_token (major v)" and mi: "is_token (minor v)"
    and mc: "token_micro (micro v)" and pre: "token_pre (prerelease v)"
    using assms by (simp_all add: matchable_def)
  have a: "ord CHR ''d'' \<notin> set (case micro v of None \<Rightarrow> lit ''0'' | Some m \<Rightarrow> m)"
    using mc p by (cases "micro v") (auto simp add: token_micro_def)
  have b: "ord CHR ''d'' \<notin> set (case prerelease v of None \<Rightarrow> []
             | Some (k, n) \<Rightarrow> lit ''-'' @ long_kind k @ lit ''.'' @ n)"
    using pre p by (cases "prerelease v") (auto simp add: token_pre_def long_kind_def)
  show ?thesis using p [OF ma] p [OF mi] a b by (simp add: canonical_def)
qed

lemma sublist_dev: "sublist (lit ''dev'') s \<Longrightarrow> ord CHR ''d'' \<in> set s"
  by (auto simp add: sublist_def)

text \<open>
  C8. Whenever the pattern matches, a prerelease marker it captured is \<open>a\<close>, \<open>b\<close>
  or \<open>rc\<close>, so the lookup in the table finds it and the fallback \<open>dev\<close> is never
  taken; the value printed for a matched remainder does not contain \<open>dev\<close>.
\<close>

theorem C8_dev_fallback_unreachable:
  assumes "re_match shortform rest = Some m"
  shows "(\<forall>k. m ''prekind'' = Some k \<longrightarrow>
            (k = lit ''a'' \<or> k = lit ''b'' \<or> k = lit ''rc'') \<and> prerelease_kinds k \<noteq> None
            \<and> dict_get prerelease_kinds k (lit ''dev'') \<noteq> lit ''dev'')
         \<and> \<not> sublist (lit ''dev'') (resolve (lit ''v'' @ rest))
         \<and> \<not> sublist (lit ''dev'') (resolve (lit ''release/'' @ rest))"
proof -
  obtain v nl where wf: "matchable v" and g: "m = groups_of v"
    using shortform_sound [OF assms] by blast
  have pre: "token_pre (prerelease v)" using wf by (simp add: matchable_def)
  have k: "(k = lit ''a'' \<or> k = lit ''b'' \<or> k = lit ''rc'') \<and> prerelease_kinds k \<noteq> None
            \<and> dict_get prerelease_kinds k (lit ''dev'') \<noteq> lit ''dev''"
    if mk: "m ''prekind'' = Some k" for k
  proof -
    obtain n where "prerelease v = Some (k, n)"
      using mk g by (cases "prerelease v") (auto simp add: groups_of_prekind)
    then have "k = lit ''a'' \<or> k = lit ''b'' \<or> k = lit ''rc''"
      using pre by (simp add: token_pre_def)
    then show ?thesis by (auto simp add: prerelease_kinds_def dict_get_def)
  qed
  have "resolve (lit ''v'' @ rest) = canonical v" "resolve (lit ''release/'' @ rest) = canonical v"
    using assms g reassemble_groups [OF wf] resolve_v [of rest] resolve_release [of rest]
    by simp_all
  then show ?thesis using k canonical_no_d [OF wf] sublist_dev by metis
qed

theorem C8_dev_fallback_unreachable_witness:
  "re_match shortform (lit ''1.0.0rc1'') \<noteq> None
   \<and> the (re_match shortform (lit ''1.0.0rc1'')) ''prekind'' = Some (lit ''rc'')
   \<and> dict_get prerelease_kinds (lit ''rc'') (lit ''dev'') \<noteq> lit ''dev''
   \<and> \<not> sublist (lit ''dev'') (resolve (lit ''v'' @ lit ''1.0.0rc1''))"
proof -
  let ?v = "\<lparr>major = lit ''1'', minor = lit ''0'', micro = Some (lit ''0''), prerelease = Some (lit ''rc'', lit ''1'')\<rparr>"
  have wf: "matchable ?v"
    by (rule well_formed_matchable)
       (simp add: well_formed_def well_formed_micro_def well_formed_pre_def is_posint_def
          isdigit_def ord_def)
  have m: "re_match shortform (lit ''1.0.0rc1'') = Some (groups_of ?v)"
    using shortform_complete [OF wf, of "[]"]
    by (simp add: at_end_def short_text_def micro_text_def pre_text_def)
  have p: "groups_of ?v ''prekind'' = Some (lit ''rc'')" by (simp add: groups_of_prekind)
  show ?thesis
    using m p C8_dev_fallback_unreachable [OF m] by simp
qed

lemma matched_value:
  assumes "re_match shortform rest = Some m"
  obtains v where "matchable v" and "m = groups_of v"
    and "resolve (lit ''v'' @ rest) = canonical v" and "resolve (lit ''release/'' @ rest) = canonical v"
proof -
  obtain v nl where wf: "matchable v" and g: "m = groups_of v"
    using shortform_sound [OF assms] by blast
  have "resolve (lit ''v'' @ rest) = canonical v" "resolve (lit ''release/'' @ rest) = canonical v"
    using assms g reassemble_groups [OF wf] resolve_v [of rest] resolve_release [of rest]
    by simp_all
  then show ?thesis using wf g that by blast
qed

lemma dec_zero: "dec [ord CHR ''0''] = 0"
  by (simp add: dec_def digit_value_def isdigit_def ord_def)

lemma read_fields_canonical:
  assumes wf: "matchable v"
  shows "read_fields (canonical v) =
           Some (dec (major v), dec (minor v), case micro v of None \<Rightarrow> 0 | Some t \<Rightarrow> dec t)"
proof -
  have ma: "is_token (major v)" and mi: "is_token (minor v)"
    and mc: "token_micro (micro v)"
    using wf by (simp_all add: matchable_def)
  let ?c = "case micro v of None \<Rightarrow> lit ''0'' | Some m \<Rightarrow> m"
  let ?p = "case prerelease v of None \<Rightarrow> [] | Some (k, n) \<Rightarrow> lit ''-'' @ long_kind k @ lit ''.'' @ n"
  have c: "is_token ?c"
    using mc by (cases "micro v") (simp_all add: token_micro_def is_token_def)
  have p: "?p = [] \<or> \<not> isdecimal (hd ?p)"
    by (cases "prerelease v") auto
  have dc: "dec ?c = (case micro v of None \<Rightarrow> 0 | Some t \<Rightarrow> dec t)"
    by (cases "micro v") (simp_all add: dec_zero)
  let ?s2 = "?c @ ?p"
  let ?s1 = "minor v @ (ord CHR ''.'' # ?s2)"
  have s: "canonical v = major v @ (ord CHR ''.'' # ?s1)" by (simp add: canonical_def)
  have "ord CHR ''.'' # ?s1 = [] \<or> \<not> isdecimal (hd (ord CHR ''.'' # ?s1))" by simp
  note sp1 = span_digits [OF token_digits [OF ma] this]
  have "ord CHR ''.'' # ?s2 = [] \<or> \<not> isdecimal (hd (ord CHR ''.'' # ?s2))" by simp
  note sp2 = span_digits [OF token_digits [OF mi] this]
  note sp3 = span_digits [OF token_digits [OF c] p]
  show ?thesis
    unfolding s read_fields_def
    by (simp add: sp1 sp2 sp3 dc token_nonempty [OF ma] token_nonempty [OF mi]
        token_nonempty [OF c] del: append_assoc)
qed

lemma group_int_groups_of:
  "group_int (groups_of v) ''major'' = dec (major v)"
  "group_int (groups_of v) ''minor'' = dec (minor v)"
  "group_int (groups_of v) ''micro'' = (case micro v of None \<Rightarrow> 0 | Some t \<Rightarrow> dec t)"
  by (simp_all add: group_int_def groups_of_simps)

text \<open>
  C7. When the pattern matches the remainder, the three leading numbers of the
  printed value are the numbers that the groups \<open>major\<close>, \<open>minor\<close> and \<open>micro\<close>
  of the match denote, an absent \<open>micro\<close> counting as 0.
\<close>

theorem C7_fields_keep_their_value:
  assumes "re_match shortform rest = Some m"
  shows "read_fields (resolve (lit ''v'' @ rest)) =
           Some (group_int m ''major'', group_int m ''minor'', group_int m ''micro'')
         \<and> read_fields (resolve (lit ''release/'' @ rest)) =
           Some (group_int m ''major'', group_int m ''minor'', group_int m ''micro'')"
proof -
  obtain v where "matchable v" and "m = groups_of v"
    and "resolve (lit ''v'' @ rest) = canonical v" and "resolve (lit ''release/'' @ rest) = canonical v"
    using matched_value [OF assms] by blast
  then show ?thesis
    using read_fields_canonical [of v] by (simp add: group_int_groups_of)
qed

theorem C7_fields_keep_their_value_witness:
  "re_match shortform (lit ''10.20b3'') \<noteq> None
   \<and> resolve (lit ''release/'' @ lit ''10.20b3'') = lit ''10.20.0-beta.3''
   \<and> read_fields (resolve (lit ''release/'' @ lit ''10.20b3'')) = Some (10, 20, 0)
   \<and> group_int (the (re_match shortform (lit ''10.20b3''))) ''major'' = 10
   \<and> group_int (the (re_match shortform (lit ''10.20b3''))) ''minor'' = 20
   \<and> group_int (the (re_match shortform (lit ''10.20b3''))) ''micro'' = 0"
proof -
  let ?v = "\<lparr>major = lit ''10'', minor = lit ''20'', micro = None, prerelease = Some (lit ''b'', lit ''3'')\<rparr>"
  have wf: "matchable ?v"
    by (rule well_formed_matchable)
       (simp add: well_formed_def well_formed_micro_def well_formed_pre_def is_posint_def
          isdigit_def ord_def)
  have m: "re_match shortform (lit ''10.20b3'') = Some (groups_of ?v)"
    using shortform_complete [OF wf, of "[]"]
    by (simp add: at_end_def short_text_def micro_text_def pre_text_def)
  have r: "resolve (lit ''release/'' @ lit ''10.20b3'') = lit ''10.20.0-beta.3''"
    using m resolve_release [of "lit ''10.20b3''"] reassemble_groups [OF wf]
    by (simp add: canonical_def long_kind_def)
  have d: "dec (lit ''10'') = 10" "dec (lit ''20'') = 20"
    by (simp_all add: dec_def digit_value_def isdigit_def ord_def)
  show ?thesis
    using m r d C7_fields_keep_their_value [OF m]
    by (simp add: group_int_groups_of)
qed

lemma strip_id:
  assumes "s \<noteq> []" and "\<not> isspace (hd s)" and "\<not> isspace (last s)"
  shows "strip s = s"
proof -
  have "dropWhile isspace s = s" using assms(1,2) by (cases s) simp_all
  moreover have "dropWhile isspace (rev s) = rev s"
    using assms(1,3) by (cases "rev s") (simp_all add: hd_rev [symmetric])
  ultimately show ?thesis by (simp add: strip_def)
qed

lemma token_ends:
  assumes "is_token t"
  shows "isdigit (hd t)" and "isdecimal (last t)"
proof -
  have "\<forall>c\<in>set t. isdecimal c" using token_digits [OF assms] by (simp add: list_all_iff)
  moreover have "t \<noteq> []" using token_nonempty [OF assms] .
  ultimately show "isdecimal (last t)" by simp
  show "isdigit (hd t)" using assms by (auto simp add: is_token_def)
qed

lemma canonical_ends:
  assumes wf: "matchable v"
  shows "canonical v \<noteq> []" and "isdigit (hd (canonical v))" and "isdecimal (last (canonical v))"
proof -
  have ma: "is_token (major v)" and mc: "token_micro (micro v)"
    and pre: "token_pre (prerelease v)"
    using wf by (simp_all add: matchable_def)
  show "canonical v \<noteq> []" using token_nonempty [OF ma] by (simp add: canonical_def)
  show "isdigit (hd (canonical v))"
    using token_nonempty [OF ma] token_ends(1) [OF ma] by (simp add: canonical_def)
  let ?c = "case micro v of None \<Rightarrow> lit ''0'' | Some m \<Rightarrow> m"
  have c: "is_token ?c"
    using mc by (cases "micro v") (simp_all add: token_micro_def is_token_def)
  show "isdecimal (last (canonical v))"
  proof (cases "prerelease v")
    case None
    then show ?thesis
      using token_nonempty [OF c] token_ends(2) [OF c] by (simp add: canonical_def)
  next
    case (Some kn)
    obtain k n where kn: "kn = (k, n)" by (cases kn)
    have n: "is_token n" using pre Some kn by (simp add: token_pre_def)
    show ?thesis
      using Some kn token_nonempty [OF n] token_ends(2) [OF n] by (simp add: canonical_def)
  qed
qed

lemma digit_start_passes:
  assumes "s \<noteq> []" and "isdigit (hd s)"
  shows "resolve s = s"
proof -
  have "isdecimal (hd s)" using assms(2) by (rule isdigit_decimal)
  then have "\<not> startswith s (lit ''v'')" "\<not> startswith s (lit ''release/'')"
    using assms(1) by (cases s; auto simp add: startswith_def)+
  then show ?thesis by (rule resolve_other)
qed

text \<open>
  C6. When the pattern matched the remainder of the trimmed argument, the printed
  value starts with a digit, so it has no recognised prefix: resolving it again gives
  it back unchanged, and running the script on it prints what the first run printed.
\<close>

theorem C6_normalised_value_is_fixed:
  assumes "strip arg = lit ''v'' @ rest \<or> strip arg = lit ''release/'' @ rest"
    and "re_match shortform rest = Some m"
  shows "isdigit (hd (resolve (strip arg)))
         \<and> resolve (resolve (strip arg)) = resolve (strip arg)
         \<and> main [prog, resolve (strip arg)] = main [prog, arg]"
proof -
  obtain v where wf: "matchable v"
    and "resolve (lit ''v'' @ rest) = canonical v" and "resolve (lit ''release/'' @ rest) = canonical v"
    using matched_value [OF assms(2)] by blast
  then have r: "resolve (strip arg) = canonical v" using assms(1) by auto
  note e = canonical_ends [OF wf]
  have st: "strip (canonical v) = canonical v"
    using e decimal_not_space isdigit_decimal by (intro strip_id) auto
  have fx: "resolve (canonical v) = canonical v"
    using e by (intro digit_start_passes)
  have ne: "strip arg \<noteq> []" using assms(1) by auto
  have "main [prog, canonical v] = main [prog, arg]"
    using main_ok [OF ne, of prog] main_ok [of "canonical v" prog] st e(1) r fx by simp
  then show ?thesis using r e(2) fx by simp
qed

theorem C6_normalised_value_is_fixed_witness:
  "(strip (lit ''v1.0.0rc1'') = lit ''v'' @ lit ''1.0.0rc1'' \<or> strip (lit ''v1.0.0rc1'') = lit ''release/'' @ lit ''1.0.0rc1'')
   \<and> re_match shortform (lit ''1.0.0rc1'') \<noteq> None
   \<and> resolve (strip (lit ''v1.0.0rc1'')) = lit ''1.0.0-rc.1''
   \<and> resolve (lit ''1.0.0-rc.1'') = lit ''1.0.0-rc.1''
   \<and> main [lit ''determine-version.py'', lit ''1.0.0-rc.1''] = main [lit ''determine-version.py'', lit ''v1.0.0rc1'']"
proof -
  let ?v = "\<lparr>major = lit ''1'', minor = lit ''0'', micro = Some (lit ''0''), prerelease = Some (lit ''rc'', lit ''1'')\<rparr>"
  have wf: "matchable ?v"
    by (rule well_formed_matchable)
       (simp add: well_formed_def well_formed_micro_def well_formed_pre_def is_posint_def
          isdigit_def ord_def)
  have m: "re_match shortform (lit ''1.0.0rc1'') = Some (groups_of ?v)"
    using shortform_complete [OF wf, of "[]"]
    by (simp add: at_end_def short_text_def micro_text_def pre_text_def)
  have st: "strip (lit ''v1.0.0rc1'') = lit ''v1.0.0rc1''" by (simp add: strip_def isspace_def ord_def)
  then have h: "strip (lit ''v1.0.0rc1'') = lit ''v'' @ lit ''1.0.0rc1'' \<or>
                strip (lit ''v1.0.0rc1'') = lit ''release/'' @ lit ''1.0.0rc1''" by simp
  have r: "resolve (strip (lit ''v1.0.0rc1'')) = lit ''1.0.0-rc.1''"
    using st m resolve_v [of "lit ''1.0.0rc1''"] reassemble_groups [OF wf]
    by (simp add: canonical_def long_kind_def)
  show ?thesis
    using h m r C6_normalised_value_is_fixed [OF h m, of "lit ''determine-version.py''"]
    by simp
qed

lemma lines_from_terminated:
  "length (lines_from cur (l @ [newline])) = Suc (count_list l (newline))"
  by (induction l arbitrary: cur) simp_all

lemma lines_from_single:
  "newline \<notin> set l \<Longrightarrow> lines_from cur (l @ [newline]) = [rev cur @ l]"
  by (induction l arbitrary: cur) auto

lemma one_line_iff:
  "(length (output_lines (l @ [newline])) = 1) = (newline \<notin> set l)"
  by (simp add: output_lines_def lines_from_terminated count_list_0_iff)

lemma posint_no_lf: "is_token t \<Longrightarrow> newline \<notin> set t"
proof
  assume "is_token t" and "newline \<in> set t"
  then have "isdecimal (newline)" using token_digits [of t] by (auto simp add: list_all_iff)
  then show False by simp
qed

lemma short_text_no_lf:
  assumes "matchable v"
  shows "newline \<notin> set (short_text v)"
proof -
  have "newline \<notin> set (micro_text (micro v))"
    using assms posint_no_lf
    by (cases "micro v") (auto simp add: matchable_def token_micro_def micro_text_def)
  moreover have "newline \<notin> set (pre_text (prerelease v))"
    using assms posint_no_lf
    by (cases "prerelease v") (auto simp add: matchable_def token_pre_def pre_text_def)
  ultimately show ?thesis
    using assms posint_no_lf by (auto simp add: short_text_def matchable_def)
qed

lemma canonical_no_lf:
  assumes "matchable v"
  shows "newline \<notin> set (canonical v)"
proof -
  have "newline \<notin> set (case micro v of None \<Rightarrow> lit ''0'' | Some m \<Rightarrow> m)"
    using assms posint_no_lf
    by (cases "micro v") (auto simp add: matchable_def token_micro_def)
  moreover have "newline \<notin> set (case prerelease v of None \<Rightarrow> []
             | Some (k, n) \<Rightarrow> lit ''-'' @ long_kind k @ lit ''.'' @ n)"
    using assms posint_no_lf
    by (cases "prerelease v") (auto simp add: matchable_def token_pre_def long_kind_def)
  ultimately show ?thesis
    using assms posint_no_lf by (auto simp add: canonical_def matchable_def)
qed

lemma resolve_keeps_lf:
  "(newline \<in> set (resolve (strip a))) = (newline \<in> set (strip a))"
proof (cases "startswith (strip a) (lit ''v'') \<or> startswith (strip a) (lit ''release/'')")
  case False
  then show ?thesis using resolve_other [of "strip a"] by simp
next
  case True
  then obtain pfx rest where b: "strip a = pfx @ rest" and pfx: "pfx = lit ''v'' \<or> pfx = lit ''release/''"
    by (metis append_take_drop_id startswith_def)
  have r: "resolve (strip a) =
             (case re_match shortform rest of None \<Rightarrow> rest | Some m \<Rightarrow> reassemble m)"
    using b pfx resolve_v [of rest] resolve_release [of rest] by auto
  have p: "newline \<notin> set pfx" using pfx by auto
  show ?thesis
  proof (cases "re_match shortform rest")
    case None
    then show ?thesis using r b p by simp
  next
    case (Some m)
    obtain v where wf: "matchable v" and "m = groups_of v"
      using matched_value [OF Some] by blast
    then have "resolve (strip a) = canonical v"
      using r Some reassemble_groups [OF wf] by simp
    moreover have "pattern_form rest" using match_trimmed [OF b Some] .
    then have "newline \<notin> set rest"
      using short_text_no_lf unfolding pattern_form_def by blast
    ultimately show ?thesis using canonical_no_lf [OF wf] b p by simp
  qed
qed

text \<open>
  C5 (as amended). On every successful run the output channel holds exactly
  \<open>::set-output name=version::\<close>, the resolved value and one line feed. This is
  exactly one line when the value holds no line feed, and the value holds a line feed
  exactly when the trimmed argument does.
\<close>

theorem C5_output_text:
  assumes "exit_code (main argv) = 0"
  shows "stdout (main argv) =
           lit ''::set-output name=version::'' @ resolve (strip (argv ! 1)) @ [newline]
         \<and> (newline \<notin> set (resolve (strip (argv ! 1))) \<longrightarrow>
              output_lines (stdout (main argv)) =
                [lit ''::set-output name=version::'' @ resolve (strip (argv ! 1))])
         \<and> (length (output_lines (stdout (main argv))) = 1)
              = (newline \<notin> set (strip (argv ! 1)))"
proof -
  let ?val = "resolve (strip (argv ! 1))"
  let ?l = "lit ''::set-output name=version::'' @ ?val"
  have out: "stdout (main argv) = ?l @ [newline]"
    using assms by (simp add: main_def print_def set_output_def split: if_splits)
  have lf: "(newline \<in> set ?l) = (newline \<in> set (strip (argv ! 1)))"
    using resolve_keeps_lf [of "argv ! 1"] by simp
  have one: "newline \<notin> set ?val \<longrightarrow> output_lines (?l @ [newline]) = [?l]"
    using lines_from_single [of ?l "[]"] by (simp add: output_lines_def)
  have len: "(length (output_lines (?l @ [newline])) = 1) = (newline \<notin> set (strip (argv ! 1)))"
    using one_line_iff [of ?l] lf by simp
  show ?thesis using out one len by simp
qed

theorem C5_output_text_witness:
  "exit_code (main [lit ''determine-version.py'', lit ''release/2.0'']) = 0
   \<and> stdout (main [lit ''determine-version.py'', lit ''release/2.0'']) =
       lit ''::set-output name=version::2.0.0'' @ [newline]
   \<and> newline \<notin> set (resolve (strip (lit ''release/2.0'')))
   \<and> output_lines (stdout (main [lit ''determine-version.py'', lit ''release/2.0''])) =
       [lit ''::set-output name=version::2.0.0'']"
proof -
  let ?v = "\<lparr>major = lit ''2'', minor = lit ''0'', micro = None, prerelease = None\<rparr>"
  have wf: "matchable ?v"
    by (rule well_formed_matchable)
       (simp add: well_formed_def well_formed_micro_def well_formed_pre_def is_posint_def
          isdigit_def ord_def)
  have m: "re_match shortform (lit ''2.0'') = Some (groups_of ?v)"
    using shortform_complete [OF wf, of "[]"]
    by (simp add: at_end_def short_text_def micro_text_def pre_text_def)
  have st: "strip (lit ''release/2.0'') = lit ''release/2.0''" by (simp add: strip_def isspace_def ord_def)
  have r: "resolve (strip (lit ''release/2.0'')) = lit ''2.0.0''"
    using st m resolve_release [of "lit ''2.0''"] reassemble_groups [OF wf]
    by (simp add: canonical_def)
  have e: "exit_code (main [lit ''determine-version.py'', lit ''release/2.0'']) = 0"
    using st by (simp add: main_def)
  show ?thesis
    using e r C5_output_text [OF e] by (simp add: output_lines_def)
qed

text \<open>
  C5 as stated fails: an argument with a line feed inside is printed as it stands, and
  the successful run writes two lines.
\<close>

theorem C5_two_lines_counterexample:
  "exit_code (main [lit ''determine-version.py'', lit ''a'' @ [newline] @ lit ''b'']) = 0
   \<and> output_lines (stdout (main [lit ''determine-version.py'', lit ''a'' @ [newline] @ lit ''b''])) =
       [lit ''::set-output name=version::a'', lit ''b'']
   \<and> length (output_lines (stdout (main [lit ''determine-version.py'', lit ''a'' @ [newline] @ lit ''b''])))
       \<noteq> 1"
  by (simp add: main_def strip_def isspace_def resolve_def startswith_def print_def
      set_output_def output_lines_def ord_def)

section \<open>The scenarios of the specification\<close>

text \<open>
  The rows of the scenario table, computed from the definitions alone, and two
  remainders with the decimal digit U+0663: after a nonzero first digit it is part of
  the number, and the number it is part of is read as \<open>int\<close> reads it.
\<close>

lemmas script_defs =
  main_def strip_def isspace_def print_def set_output_def usage_error_def resolve_def
  startswith_def ord_def re_match_def shortform_def posint_def prekind_re_def isdecimal_def
  isdigit_def wide_digit_def wide_digit_starts_def reassemble_def truthy_def fmt_def
  dict_get_def prerelease_kinds_def

lemma scenario_values:
  "resolve (lit ''v1.2.3'') = lit ''1.2.3''"
  "resolve (lit ''release/2.0'') = lit ''2.0.0''"
  "resolve (lit ''v1.0.0rc1'') = lit ''1.0.0-rc.1''"
  "resolve (lit ''v1.2a3'') = lit ''1.2.0-alpha.3''"
  "resolve (lit ''feature/foo'') = lit ''feature/foo''"
  "resolve (lit ''v01.2.3'') = lit ''01.2.3''"
  by (simp_all add: script_defs)

lemma scenario_runs:
  "main [lit ''determine-version.py'', lit ''v1.2.3''] =
     \<lparr>exit_code = 0, stdout = lit ''::set-output name=version::1.2.3'' @ [newline],
      stderr = []\<rparr>"
  "main [lit ''determine-version.py'', []] =
     \<lparr>exit_code = 1, stdout = [], stderr = print usage_error\<rparr>"
  "main [lit ''determine-version.py''] =
     \<lparr>exit_code = 1, stdout = [], stderr = print usage_error\<rparr>"
  by (simp_all add: script_defs)

lemma wide_digit_values:
  "resolve (lit ''v1.2'' @ [0x663]) = lit ''1.2'' @ [0x663] @ lit ''.0''"
  "read_fields (lit ''1.2'' @ [0x663] @ lit ''.0'') = Some (1, 23, 0)"
  "resolve (lit ''v'' @ [0x663] @ lit ''.2'') = [0x663] @ lit ''.2''"
  "resolve (lit ''v0'' @ [0x663] @ lit ''.2'') = lit ''0'' @ [0x663] @ lit ''.2''"
  by (simp_all add: script_defs read_fields_def dec_def digit_value_def)

end
